theory Spec2Isabelle
  imports Complex_Main "HOL-Library.Word" "HOL-Library.AList" "HOL-Library.Sublist"
begin

section \<open>Domain model (internal/domain/models.go)\<close>

text \<open>
  Go's \<^verbatim>\<open>int64\<close> is a 64-bit word read in two's complement: \<open>+\<close> and \<open>-\<close> wrap
  around, and the comparisons of the source are the signed ones (\<open><s\<close>, \<open>\<le>s\<close>).
\<close>

type_synonym int64 = "64 word"

text \<open>
  \<^verbatim>\<open>float64\<close> is only ever compared with zero by the code modelled here, so a value is
  a real number, an infinity or a NaN; \<^verbatim>\<open>x < 0\<close> is false for a NaN.
\<close>

datatype float64 = Finite real | PosInf | NegInf | NaN

fun float64_lt_zero :: "float64 \<Rightarrow> bool" where
  "float64_lt_zero (Finite r) = (r < 0)"
| "float64_lt_zero NegInf = True"
| "float64_lt_zero PosInf = False"
| "float64_lt_zero NaN = False"

text \<open>A \<^verbatim>\<open>time.Time\<close> is an abstract instant; the zero value is \<open>0\<close>.\<close>

type_synonym timestamp = nat

record Product =
  ID :: int64
  Name :: string
  SKU :: string
  Price :: float64
  Stock :: int64

datatype OrderStatus = OrderStatusPending | OrderStatusConfirmed | OrderStatusCancelled

record OrderItem =
  ProductID :: int64
  Quantity :: int64

record Order =
  ID :: int64
  CustomerName :: string
  Items :: "OrderItem list"
  Status :: OrderStatus
  CreatedAt :: timestamp
  UpdatedAt :: timestamp

section \<open>Errors\<close>

text \<open>
  \<^verbatim>\<open>repository.ErrNotFound\<close>, \<^verbatim>\<open>service.ErrInvalidInput\<close>,
  \<^verbatim>\<open>service.ErrNotEnoughStock\<close> and \<^verbatim>\<open>service.ErrInvalidState\<close>.
\<close>

datatype error = ErrNotFound | ErrInvalidInput | ErrNotEnoughStock | ErrInvalidState

section \<open>The in-memory store (internal/repository/memory.go)\<close>

text \<open>
  The mutex of the store and the transaction marker of the context only serialise
  callers; a call is modelled as a function from the store before to the store after.
  \<^verbatim>\<open>WithTransaction\<close> runs its argument and returns what it returns: nothing is rolled
  back, so every operation below returns the store it leaves behind together with its
  result, also when the result is an error.
\<close>

record MemoryStore =
  nextProdID :: int64
  nextOrderID :: int64
  productsByID :: "int64 \<rightharpoonup> Product"
  ordersByID :: "int64 \<rightharpoonup> Order"

definition NewMemoryStore :: MemoryStore where
  "NewMemoryStore =
     \<lparr>nextProdID = 1, nextOrderID = 1, productsByID = Map.empty, ordersByID = Map.empty\<rparr>"

definition MemoryStore_Create :: "MemoryStore \<Rightarrow> Product \<Rightarrow> MemoryStore \<times> Product" where
  "MemoryStore_Create m p =
     (let p' = p\<lparr>Product.ID := nextProdID m\<rparr>
      in (m\<lparr>nextProdID := nextProdID m + 1,
             productsByID := (productsByID m)(Product.ID p' \<mapsto> p')\<rparr>, p'))"

definition MemoryStore_GetByID :: "MemoryStore \<Rightarrow> int64 \<Rightarrow> error + Product" where
  "MemoryStore_GetByID m pid =
     (case productsByID m pid of None \<Rightarrow> Inl ErrNotFound | Some p \<Rightarrow> Inr p)"

definition MemoryStore_Update :: "MemoryStore \<Rightarrow> Product \<Rightarrow> error + MemoryStore" where
  "MemoryStore_Update m p =
     (case productsByID m (Product.ID p) of
        None \<Rightarrow> Inl ErrNotFound
      | Some _ \<Rightarrow> Inr (m\<lparr>productsByID := (productsByID m)(Product.ID p \<mapsto> p)\<rparr>))"

definition MemoryStore_Delete :: "MemoryStore \<Rightarrow> int64 \<Rightarrow> error + MemoryStore" where
  "MemoryStore_Delete m pid =
     (case productsByID m pid of
        None \<Rightarrow> Inl ErrNotFound
      | Some _ \<Rightarrow> Inr (m\<lparr>productsByID := (productsByID m)(pid := None)\<rparr>))"

text \<open>\<^verbatim>\<open>MemoryOrders\<close>: the clock reading \<^verbatim>\<open>time.Now().UTC()\<close> is the argument \<open>now\<close>.\<close>

definition MemoryOrders_Create :: "timestamp \<Rightarrow> MemoryStore \<Rightarrow> Order \<Rightarrow> MemoryStore \<times> Order" where
  "MemoryOrders_Create now m ord =
     (let ord' = ord\<lparr>Order.ID := nextOrderID m, CreatedAt := now, UpdatedAt := now\<rparr>
      in (m\<lparr>nextOrderID := nextOrderID m + 1,
             ordersByID := (ordersByID m)(Order.ID ord' \<mapsto> ord')\<rparr>, ord'))"

definition MemoryOrders_GetByID :: "MemoryStore \<Rightarrow> int64 \<Rightarrow> error + Order" where
  "MemoryOrders_GetByID m oid =
     (case ordersByID m oid of None \<Rightarrow> Inl ErrNotFound | Some ord \<Rightarrow> Inr ord)"

definition MemoryOrders_Update ::
  "timestamp \<Rightarrow> MemoryStore \<Rightarrow> Order \<Rightarrow> error + MemoryStore \<times> Order" where
  "MemoryOrders_Update now m ord =
     (case ordersByID m (Order.ID ord) of
        None \<Rightarrow> Inl ErrNotFound
      | Some _ \<Rightarrow>
          (let ord' = ord\<lparr>UpdatedAt := now\<rparr>
           in Inr (m\<lparr>ordersByID := (ordersByID m)(Order.ID ord' \<mapsto> ord')\<rparr>, ord')))"

section \<open>ProductService (internal/service/product_service.go)\<close>

definition ProductService_Create :: "MemoryStore \<Rightarrow> Product \<Rightarrow> MemoryStore \<times> (error + Product)" where
  "ProductService_Create m p =
     (if Name p = [] \<or> SKU p = [] \<or> float64_lt_zero (Price p) \<or> Stock p <s 0
      then (m, Inl ErrInvalidInput)
      else (case MemoryStore_Create m p of (m', cp) \<Rightarrow> (m', Inr cp)))"

definition ProductService_Update :: "MemoryStore \<Rightarrow> Product \<Rightarrow> MemoryStore \<times> (error + Product)" where
  "ProductService_Update m p =
     (if Product.ID p \<le>s 0 \<or> Name p = [] \<or> float64_lt_zero (Price p) \<or> Stock p <s 0
      then (m, Inl ErrInvalidInput)
      else (case MemoryStore_Update m p of
              Inl e \<Rightarrow> (m, Inl e)
            | Inr m' \<Rightarrow> (m', Inr p)))"

definition ProductService_Delete :: "MemoryStore \<Rightarrow> int64 \<Rightarrow> MemoryStore \<times> (error + unit)" where
  "ProductService_Delete m pid =
     (if pid \<le>s 0 then (m, Inl ErrInvalidInput)
      else (case MemoryStore_Delete m pid of
              Inl e \<Rightarrow> (m, Inl e)
            | Inr m' \<Rightarrow> (m', Inr ())))"

section \<open>OrderService (the order_service.go part of the sources)\<close>

text \<open>
  The field checks of \<^verbatim>\<open>CreateOrder\<close> and \<^verbatim>\<open>PartialReturn\<close>: some entry has a
  non-positive product identifier or quantity.
\<close>

definition invalid_items :: "OrderItem list \<Rightarrow> bool" where
  "invalid_items items = list_ex (\<lambda>it. ProductID it \<le>s 0 \<or> Quantity it \<le>s 0) items"

text \<open>
  The block \<^verbatim>\<open>p, err := GetByID(id); p.Stock += n; Update(p)\<close>, which \<^verbatim>\<open>CancelOrder\<close>
  and the three returning branches of \<^verbatim>\<open>PartialReturn\<close> each spell out. Either call can
  fail; the store is then as it was before the block.
\<close>

definition restore_stock :: "MemoryStore \<Rightarrow> int64 \<Rightarrow> int64 \<Rightarrow> error + MemoryStore" where
  "restore_stock m pid n =
     (case MemoryStore_GetByID m pid of
        Inl e \<Rightarrow> Inl e
      | Inr p \<Rightarrow> MemoryStore_Update m (p\<lparr>Stock := Stock p + n\<rparr>))"

subsection \<open>CreateOrder\<close>

text \<open>
  First loop of the transaction: every line item reads its product from the store
  (never from \<^verbatim>\<open>productCopies\<close>), checks the stock against this line's quantity, and
  files the decremented copy under the product's identifier, replacing an earlier copy
  of the same product. \<^verbatim>\<open>productCopies\<close> is a Go map; it is an association list here,
  in order of first insertion.
\<close>

fun reserve ::
  "MemoryStore \<Rightarrow> OrderItem list \<Rightarrow> (int64 \<times> Product) list \<Rightarrow> error + (int64 \<times> Product) list" where
  "reserve m [] productCopies = Inr productCopies"
| "reserve m (it # its) productCopies =
     (case MemoryStore_GetByID m (ProductID it) of
        Inl e \<Rightarrow> Inl e
      | Inr p \<Rightarrow>
          if Stock p <s Quantity it then Inl ErrNotEnoughStock
          else reserve m its
                 (AList.update (Product.ID p) (p\<lparr>Stock := Stock p - Quantity it\<rparr>) productCopies))"

text \<open>
  Second loop: every copy is written back. Go leaves the iteration order of a map open;
  the copies have distinct identifiers and \<^verbatim>\<open>Update\<close> writes the slot of its own
  identifier only, so the order shows in the result only when an update fails. The
  model walks the list from its head.
\<close>

fun persist :: "MemoryStore \<Rightarrow> (int64 \<times> Product) list \<Rightarrow> MemoryStore \<times> (error + unit)" where
  "persist m [] = (m, Inr ())"
| "persist m ((k, p) # ps) =
     (case MemoryStore_Update m p of
        Inl e \<Rightarrow> (m, Inl e)
      | Inr m' \<Rightarrow> persist m' ps)"

definition CreateOrder ::
  "timestamp \<Rightarrow> MemoryStore \<Rightarrow> string \<Rightarrow> OrderItem list \<Rightarrow> MemoryStore \<times> (error + Order)" where
  "CreateOrder now m customer items =
     (if customer = [] \<or> items = [] then (m, Inl ErrInvalidInput)
      else if invalid_items items then (m, Inl ErrInvalidInput)
      else (case reserve m items [] of
              Inl e \<Rightarrow> (m, Inl e)
            | Inr productCopies \<Rightarrow>
                (case persist m productCopies of
                   (m1, Inl e) \<Rightarrow> (m1, Inl e)
                 | (m1, Inr _) \<Rightarrow>
                     (case MemoryOrders_Create now m1
                             \<lparr>Order.ID = 0, CustomerName = customer, Items = items,
                              Status = OrderStatusConfirmed, CreatedAt = 0, UpdatedAt = 0\<rparr> of
                        (m2, created) \<Rightarrow> (m2, Inr created)))))"

subsection \<open>GetOrder\<close>

definition GetOrder :: "MemoryStore \<Rightarrow> int64 \<Rightarrow> error + Order" where
  "GetOrder m oid = (if oid \<le>s 0 then Inl ErrInvalidInput else MemoryOrders_GetByID m oid)"

subsection \<open>CancelOrder\<close>

text \<open>The loop over the stored line items: each restoration is written at once.\<close>

fun return_stock :: "MemoryStore \<Rightarrow> OrderItem list \<Rightarrow> MemoryStore \<times> (error + unit)" where
  "return_stock m [] = (m, Inr ())"
| "return_stock m (it # its) =
     (case restore_stock m (ProductID it) (Quantity it) of
        Inl e \<Rightarrow> (m, Inl e)
      | Inr m' \<Rightarrow> return_stock m' its)"

definition CancelOrder :: "timestamp \<Rightarrow> MemoryStore \<Rightarrow> int64 \<Rightarrow> MemoryStore \<times> (error + Order)" where
  "CancelOrder now m oid =
     (if oid \<le>s 0 then (m, Inl ErrInvalidInput)
      else (case MemoryOrders_GetByID m oid of
              Inl e \<Rightarrow> (m, Inl e)
            | Inr ord \<Rightarrow>
                if Status ord \<noteq> OrderStatusConfirmed then (m, Inl ErrInvalidState)
                else (case return_stock m (Items ord) of
                        (m1, Inl e) \<Rightarrow> (m1, Inl e)
                      | (m1, Inr _) \<Rightarrow>
                          (case MemoryOrders_Update now m1 (ord\<lparr>Status := OrderStatusCancelled\<rparr>) of
                             Inl e \<Rightarrow> (m1, Inl e)
                           | Inr (m2, updated) \<Rightarrow> (m2, Inr updated)))))"

subsection \<open>PartialReturn\<close>

text \<open>
  \<^verbatim>\<open>qtyByProduct\<close> and \<^verbatim>\<open>consumed\<close> are Go maps that are only indexed: a missing key
  reads as 0, so each is a total function, 0 everywhere at the start.
\<close>

definition qtyByProduct :: "OrderItem list \<Rightarrow> int64 \<Rightarrow> int64" where
  "qtyByProduct items =
     fold (\<lambda>it q. q(ProductID it := q (ProductID it) + Quantity it)) items (\<lambda>_. 0)"

text \<open>The validation loop: some single entry asks for more than the order holds.\<close>

definition exceeds_held :: "(int64 \<Rightarrow> int64) \<Rightarrow> OrderItem list \<Rightarrow> bool" where
  "exceeds_held q returns = list_ex (\<lambda>r. q (ProductID r) <s Quantity r) returns"

text \<open>The inner loop that recomputes \<^verbatim>\<open>totalReturn\<close> for the product of a line item.\<close>

definition totalReturn :: "OrderItem list \<Rightarrow> int64 \<Rightarrow> int64" where
  "totalReturn returns pid =
     fold (\<lambda>r t. if ProductID r = pid then t + Quantity r else t) returns 0"

fun apply_returns ::
  "MemoryStore \<Rightarrow> OrderItem list \<Rightarrow> OrderItem list \<Rightarrow> (int64 \<Rightarrow> int64) \<Rightarrow> OrderItem list \<Rightarrow>
     MemoryStore \<times> (error + OrderItem list)" where
  "apply_returns m returns [] consumed newItems = (m, Inr newItems)"
| "apply_returns m returns (it # its) consumed newItems =
     (if totalReturn returns (ProductID it) \<le>s consumed (ProductID it)
      then apply_returns m returns its consumed (newItems @ [it])
      else if totalReturn returns (ProductID it) - consumed (ProductID it) <s Quantity it
      then (case restore_stock m (ProductID it)
                   (totalReturn returns (ProductID it) - consumed (ProductID it)) of
              Inl e \<Rightarrow> (m, Inl e)
            | Inr m' \<Rightarrow>
                apply_returns m' returns its
                  (consumed(ProductID it := consumed (ProductID it)
                     + (totalReturn returns (ProductID it) - consumed (ProductID it))))
                  (newItems @ [it\<lparr>Quantity := Quantity it
                     - (totalReturn returns (ProductID it) - consumed (ProductID it))\<rparr>]))
      else if totalReturn returns (ProductID it) - consumed (ProductID it) = Quantity it
      then (case restore_stock m (ProductID it)
                   (totalReturn returns (ProductID it) - consumed (ProductID it)) of
              Inl e \<Rightarrow> (m, Inl e)
            | Inr m' \<Rightarrow>
                apply_returns m' returns its
                  (consumed(ProductID it := consumed (ProductID it)
                     + (totalReturn returns (ProductID it) - consumed (ProductID it))))
                  newItems)
      else (case restore_stock m (ProductID it) (Quantity it) of
              Inl e \<Rightarrow> (m, Inl e)
            | Inr m' \<Rightarrow>
                apply_returns m' returns its
                  (consumed(ProductID it := consumed (ProductID it) + Quantity it))
                  newItems))"

definition PartialReturn ::
  "timestamp \<Rightarrow> MemoryStore \<Rightarrow> int64 \<Rightarrow> OrderItem list \<Rightarrow> MemoryStore \<times> (error + Order)" where
  "PartialReturn now m oid returns =
     (if oid \<le>s 0 \<or> returns = [] then (m, Inl ErrInvalidInput)
      else if invalid_items returns then (m, Inl ErrInvalidInput)
      else (case MemoryOrders_GetByID m oid of
              Inl e \<Rightarrow> (m, Inl e)
            | Inr ord \<Rightarrow>
                if Status ord \<noteq> OrderStatusConfirmed then (m, Inl ErrInvalidState)
                else if exceeds_held (qtyByProduct (Items ord)) returns
                then (m, Inl ErrInvalidInput)
                else (case apply_returns m returns (Items ord) (\<lambda>_. 0) [] of
                        (m1, Inl e) \<Rightarrow> (m1, Inl e)
                      | (m1, Inr newItems) \<Rightarrow>
                          (case MemoryOrders_Update now m1 (ord\<lparr>Items := newItems\<rparr>) of
                             Inl e \<Rightarrow> (m1, Inl e)
                           | Inr (m2, updated) \<Rightarrow> (m2, Inr updated)))))"

section \<open>Sequences of calls\<close>

text \<open>
  The calls a client can make on the two services, and the store a sequence of them
  leaves behind, starting from \<^verbatim>\<open>NewMemoryStore()\<close>. A call that fails still leaves
  the store it reached.
\<close>

datatype operation =
    ProductCreate Product
  | ProductUpdate Product
  | ProductDelete int64
  | OrderCreate timestamp string "OrderItem list"
  | OrderCancel timestamp int64
  | OrderPartialReturn timestamp int64 "OrderItem list"

fun perform :: "MemoryStore \<Rightarrow> operation \<Rightarrow> MemoryStore" where
  "perform m (ProductCreate p) = fst (ProductService_Create m p)"
| "perform m (ProductUpdate p) = fst (ProductService_Update m p)"
| "perform m (ProductDelete pid) = fst (ProductService_Delete m pid)"
| "perform m (OrderCreate now customer items) = fst (CreateOrder now m customer items)"
| "perform m (OrderCancel now oid) = fst (CancelOrder now m oid)"
| "perform m (OrderPartialReturn now oid returns) = fst (PartialReturn now m oid returns)"

definition run :: "operation list \<Rightarrow> MemoryStore" where
  "run ops = foldl perform NewMemoryStore ops"

section \<open>Invariants of the store\<close>

text \<open>Every record sits under its own identifier.\<close>

definition keyed :: "MemoryStore \<Rightarrow> bool" where
  "keyed m \<longleftrightarrow>
     (\<forall>k p. productsByID m k = Some p \<longrightarrow> Product.ID p = k) \<and>
     (\<forall>k ord. ordersByID m k = Some ord \<longrightarrow> Order.ID ord = k)"

text \<open>The product counter is positive and above every identifier in use.\<close>

definition ids_below_counter :: "MemoryStore \<Rightarrow> bool" where
  "ids_below_counter m \<longleftrightarrow>
     0 <s nextProdID m \<and> (\<forall>k p. productsByID m k = Some p \<longrightarrow> k <s nextProdID m)"

text \<open>
  What the calls on orders and the updates and deletions of products leave alone: the
  product counter, and the absence of a product.
\<close>

definition products_frame :: "MemoryStore \<Rightarrow> MemoryStore \<Rightarrow> bool" where
  "products_frame m m' \<longleftrightarrow>
     nextProdID m' = nextProdID m \<and> (\<forall>k. productsByID m k = None \<longrightarrow> productsByID m' k = None)"

text \<open>
  Stock at rest: no product has a negative stock. Line items at rest: every line item
  of every stored order has a positive quantity.
\<close>

definition stock_nonneg :: "MemoryStore \<Rightarrow> bool" where
  "stock_nonneg m \<longleftrightarrow> (\<forall>k p. productsByID m k = Some p \<longrightarrow> 0 \<le>s Stock p)"

definition positive_lines :: "OrderItem list \<Rightarrow> bool" where
  "positive_lines items = list_all (\<lambda>it. 0 <s Quantity it) items"

definition quantities_positive :: "MemoryStore \<Rightarrow> bool" where
  "quantities_positive m \<longleftrightarrow>
     (\<forall>k ord. ordersByID m k = Some ord \<longrightarrow> positive_lines (Items ord))"

text \<open>
  The addition \<^verbatim>\<open>p.Stock += n\<close> of a restoration stays within 64 bits when, read as
  integers, the new stock is the old stock plus \<open>n\<close>. A restoration that finds no
  product adds nothing.
\<close>

definition restore_fits :: "MemoryStore \<Rightarrow> int64 \<Rightarrow> int64 \<Rightarrow> bool" where
  "restore_fits m pid n =
     (case productsByID m pid of
        None \<Rightarrow> True
      | Some p \<Rightarrow> sint (Stock p + n) = sint (Stock p) + sint n)"

text \<open>
  Every addition that the loop of \<^verbatim>\<open>CancelOrder\<close> performs from a store stays within
  64 bits. The loop stops at a restoration that fails.
\<close>

fun return_stock_fits :: "MemoryStore \<Rightarrow> OrderItem list \<Rightarrow> bool" where
  "return_stock_fits m [] = True"
| "return_stock_fits m (it # its) =
     (restore_fits m (ProductID it) (Quantity it) \<and>
      (case restore_stock m (ProductID it) (Quantity it) of
         Inl e \<Rightarrow> True
       | Inr m' \<Rightarrow> return_stock_fits m' its))"

text \<open>
  The same for the loop of \<^verbatim>\<open>PartialReturn\<close>, branch by branch: a kept line adds
  nothing, a reduced line and an exactly consumed line add \<^verbatim>\<open>needReturn\<close>, a line
  consumed with a shortfall adds its quantity.
\<close>

fun apply_returns_fits ::
  "MemoryStore \<Rightarrow> OrderItem list \<Rightarrow> OrderItem list \<Rightarrow> (int64 \<Rightarrow> int64) \<Rightarrow> bool" where
  "apply_returns_fits m returns [] consumed = True"
| "apply_returns_fits m returns (it # its) consumed =
     (if totalReturn returns (ProductID it) \<le>s consumed (ProductID it)
      then apply_returns_fits m returns its consumed
      else if totalReturn returns (ProductID it) - consumed (ProductID it) <s Quantity it
      then restore_fits m (ProductID it)
             (totalReturn returns (ProductID it) - consumed (ProductID it)) \<and>
           (case restore_stock m (ProductID it)
                   (totalReturn returns (ProductID it) - consumed (ProductID it)) of
              Inl e \<Rightarrow> True
            | Inr m' \<Rightarrow>
                apply_returns_fits m' returns its
                  (consumed(ProductID it := consumed (ProductID it)
                     + (totalReturn returns (ProductID it) - consumed (ProductID it)))))
      else if totalReturn returns (ProductID it) - consumed (ProductID it) = Quantity it
      then restore_fits m (ProductID it)
             (totalReturn returns (ProductID it) - consumed (ProductID it)) \<and>
           (case restore_stock m (ProductID it)
                   (totalReturn returns (ProductID it) - consumed (ProductID it)) of
              Inl e \<Rightarrow> True
            | Inr m' \<Rightarrow>
                apply_returns_fits m' returns its
                  (consumed(ProductID it := consumed (ProductID it)
                     + (totalReturn returns (ProductID it) - consumed (ProductID it)))))
      else restore_fits m (ProductID it) (Quantity it) \<and>
           (case restore_stock m (ProductID it) (Quantity it) of
              Inl e \<Rightarrow> True
            | Inr m' \<Rightarrow>
                apply_returns_fits m' returns its
                  (consumed(ProductID it := consumed (ProductID it) + Quantity it))))"

text \<open>
  A call fits a store when none of the additions to a stock that it performs there
  wraps around. Only \<^verbatim>\<open>CancelOrder\<close> and \<^verbatim>\<open>PartialReturn\<close> add to a stock, and only
  once their checks have passed. A sequence of calls fits when each call fits the
  store it meets.
\<close>

fun fits :: "MemoryStore \<Rightarrow> operation \<Rightarrow> bool" where
  "fits m (OrderCancel now oid) =
     (if oid \<le>s 0 then True
      else (case MemoryOrders_GetByID m oid of
              Inl e \<Rightarrow> True
            | Inr ord \<Rightarrow>
                if Status ord \<noteq> OrderStatusConfirmed then True
                else return_stock_fits m (Items ord)))"
| "fits m (OrderPartialReturn now oid returns) =
     (if oid \<le>s 0 \<or> returns = [] then True
      else if invalid_items returns then True
      else (case MemoryOrders_GetByID m oid of
              Inl e \<Rightarrow> True
            | Inr ord \<Rightarrow>
                if Status ord \<noteq> OrderStatusConfirmed then True
                else if exceeds_held (qtyByProduct (Items ord)) returns then True
                else apply_returns_fits m returns (Items ord) (\<lambda>_. 0)))"
| "fits m (ProductCreate p) = True"
| "fits m (ProductUpdate p) = True"
| "fits m (ProductDelete pid) = True"
| "fits m (OrderCreate now customer items) = True"

fun fits_all :: "MemoryStore \<Rightarrow> operation list \<Rightarrow> bool" where
  "fits_all m [] = True"
| "fits_all m (op # ops) = (fits m op \<and> fits_all (perform m op) ops)"

text \<open>
  The quantity a list of line items or of return entries holds of a product, as an
  integer.
\<close>

definition held :: "OrderItem list \<Rightarrow> int64 \<Rightarrow> int" where
  "held items pid =
     sum_list (map (\<lambda>it. sint (Quantity it)) (filter (\<lambda>it. ProductID it = pid) items))"

text \<open>
  For an item list and a product: the quantity of the last line item of that product,
  if there is one, and the 64-bit sum of the quantities of all its line items.
\<close>

fun last_quantity :: "OrderItem list \<Rightarrow> int64 \<Rightarrow> int64 option" where
  "last_quantity [] k = None"
| "last_quantity (it # its) k =
     (case last_quantity its k of
        Some q \<Rightarrow> Some q
      | None \<Rightarrow> if ProductID it = k then Some (Quantity it) else None)"

definition units_held :: "OrderItem list \<Rightarrow> int64 \<Rightarrow> int64" where
  "units_held items pid = sum_list (map Quantity (filter (\<lambda>it. ProductID it = pid) items))"

text \<open>The inventory after \<^verbatim>\<open>p.Stock += n\<close> on one product.\<close>

definition stock_added :: "(int64 \<rightharpoonup> Product) \<Rightarrow> int64 \<Rightarrow> int64 \<Rightarrow> (int64 \<rightharpoonup> Product)" where
  "stock_added products pid n =
     (case products pid of
        None \<Rightarrow> products
      | Some p \<Rightarrow> products(pid \<mapsto> p\<lparr>Stock := Stock p + n\<rparr>))"

section \<open>The reconciliation walk of PartialReturn, as the specification words it\<close>

text \<open>
  The specification counts in integers. A line item is a product identifier with a
  quantity; the total requested for a product is summed once over the matching entries
  of the request.
\<close>

definition quantities :: "OrderItem list \<Rightarrow> (int64 \<times> int) list" where
  "quantities items = map (\<lambda>it. (ProductID it, sint (Quantity it))) items"

definition spec_totalReturn :: "OrderItem list \<Rightarrow> int64 \<Rightarrow> int" where
  "spec_totalReturn returnItems pid =
     sum_list (map (\<lambda>r. sint (Quantity r)) (filter (\<lambda>r. ProductID r = pid) returnItems))"

text \<open>
  The walk over the line items in stored order, with the per-product counter of what
  is already consumed and the per-product count of the units restored to stock: the
  rebuilt item list and the units restored. The four cases are those of the
  specification, in its order.
\<close>

fun spec_walk ::
  "(int64 \<Rightarrow> int) \<Rightarrow> (int64 \<times> int) list \<Rightarrow> (int64 \<Rightarrow> int) \<Rightarrow> (int64 \<Rightarrow> int) \<Rightarrow>
     (int64 \<times> int) list \<times> (int64 \<Rightarrow> int)" where
  "spec_walk requested [] consumed restored = ([], restored)"
| "spec_walk requested ((pid, available) # items) consumed restored =
     (if requested pid \<le> consumed pid
      then (case spec_walk requested items consumed restored of
              (rebuilt, restored') \<Rightarrow> ((pid, available) # rebuilt, restored'))
      else if requested pid - consumed pid < available
      then (case spec_walk requested items
                   (consumed(pid := consumed pid + (requested pid - consumed pid)))
                   (restored(pid := restored pid + (requested pid - consumed pid))) of
              (rebuilt, restored') \<Rightarrow>
                ((pid, available - (requested pid - consumed pid)) # rebuilt, restored'))
      else if requested pid - consumed pid = available
      then spec_walk requested items (consumed(pid := consumed pid + available))
             (restored(pid := restored pid + available))
      else spec_walk requested items (consumed(pid := consumed pid + available))
             (restored(pid := restored pid + available)))"

text \<open>The quantity a list of the specification's line items holds of a product.\<close>

definition spec_held :: "(int64 \<times> int) list \<Rightarrow> int64 \<Rightarrow> int" where
  "spec_held items pid = sum_list (map snd (filter (\<lambda>x. fst x = pid) items))"

section \<open>Fixtures\<close>

text \<open>
  The product and line items of the service tests: a product request named A with a
  given stock, a line item, and the store after creating that one product (it gets
  identifier 1).
\<close>

definition product_A :: "int64 \<Rightarrow> Product" where
  "product_A s = \<lparr>Product.ID = 0, Name = ''A'', SKU = ''SKU1'', Price = Finite 10, Stock = s\<rparr>"

definition line :: "int64 \<Rightarrow> int64 \<Rightarrow> OrderItem" where
  "line pid q = \<lparr>ProductID = pid, Quantity = q\<rparr>"

definition store_A :: "int64 \<Rightarrow> MemoryStore" where
  "store_A s = run [ProductCreate (product_A s)]"

text \<open>A second product request, named B, and the store holding A and B as products 1 and 2.\<close>

definition product_B :: "int64 \<Rightarrow> Product" where
  "product_B s = \<lparr>Product.ID = 0, Name = ''B'', SKU = ''SKU2'', Price = Finite 20, Stock = s\<rparr>"

definition store_AB :: "int64 \<Rightarrow> int64 \<Rightarrow> MemoryStore" where
  "store_AB a b = run [ProductCreate (product_A a), ProductCreate (product_B b)]"

text \<open>The stock on record for a product, if the product exists.\<close>

definition stock_of :: "MemoryStore \<Rightarrow> int64 \<Rightarrow> int64 option" where
  "stock_of m pid = map_option Stock (productsByID m pid)"

text \<open>
  Stores of the cancellation tests: product A with stock 10 and a confirmed order of two
  units; the same after cancelling the order; the same after returning both units
  instead, which leaves a confirmed order without line items.
\<close>

definition store_confirmed :: MemoryStore where
  "store_confirmed = run [ProductCreate (product_A 10), OrderCreate 7 ''Jane'' [line 1 2]]"

definition store_cancelled :: MemoryStore where
  "store_cancelled =
     run [ProductCreate (product_A 10), OrderCreate 7 ''Jane'' [line 1 2], OrderCancel 8 1]"

definition store_emptied :: MemoryStore where
  "store_emptied =
     run [ProductCreate (product_A 10), OrderCreate 7 ''Jane'' [line 1 2],
          OrderPartialReturn 8 1 [line 1 2]]"

text \<open>
  A store whose order has two line items for product 1, of two and three units; the
  stock of A is then 7.
\<close>

definition store_two_lines :: MemoryStore where
  "store_two_lines =
     run [ProductCreate (product_A 10), OrderCreate 7 ''Jane'' [line 1 2, line 1 3]]"

text \<open>
  Two sequences of calls. In the first, a product is created with the largest 64-bit
  stock, one unit is ordered, an update sets the stock back to the largest value, and
  the order is cancelled. In the second, an order of two lines of product 1 is partly
  returned and then cancelled.
\<close>

definition overflowing_calls :: "operation list" where
  "overflowing_calls =
     [ProductCreate (product_A 9223372036854775807),
      OrderCreate 7 ''John'' [line 1 1],
      ProductUpdate ((product_A 9223372036854775807)\<lparr>Product.ID := 1\<rparr>),
      OrderCancel 8 1]"

definition returning_calls :: "operation list" where
  "returning_calls =
     [ProductCreate (product_A 10), OrderCreate 7 ''Jane'' [line 1 2, line 1 3],
      OrderPartialReturn 8 1 [line 1 4], OrderCancel 9 1]"

text \<open>
  A sequence in which an order of five units is partly returned while the stock is one
  below the largest 64-bit value.
\<close>

definition filling_calls :: "operation list" where
  "filling_calls =
     [ProductCreate (product_A 9223372036854775807),
      OrderCreate 7 ''John'' [line 1 5],
      ProductUpdate ((product_A 9223372036854775806)\<lparr>Product.ID := 1\<rparr>),
      OrderPartialReturn 8 1 [line 1 1]]"

text \<open>
  A store whose product has the largest 64-bit stock, all of it ordered in one line.
\<close>

definition store_all_ordered :: MemoryStore where
  "store_all_ordered =
     run [ProductCreate (product_A 9223372036854775807),
          OrderCreate 7 ''Jane'' [line 1 9223372036854775807]]"

section \<open>Unfolding the model on concrete inputs\<close>

lemmas model_defs =
  NewMemoryStore_def MemoryStore_Create_def MemoryStore_GetByID_def MemoryStore_Update_def
  MemoryStore_Delete_def MemoryOrders_Create_def MemoryOrders_GetByID_def
  MemoryOrders_Update_def ProductService_Create_def ProductService_Update_def
  ProductService_Delete_def invalid_items_def restore_stock_def CreateOrder_def GetOrder_def
  CancelOrder_def qtyByProduct_def exceeds_held_def totalReturn_def PartialReturn_def
  run_def product_A_def line_def store_A_def stock_of_def
  Let_def word_sle_eq word_sless_alt

section \<open>The tests of the order service, on the model\<close>

text \<open>
  The scenarios of the repository's tests of \<^verbatim>\<open>OrderService\<close>, with the values they
  assert: the model gives the results the tests expect of the code.
\<close>

lemma TestCreateOrderAndCancel:
  "snd (CreateOrder 7 (store_AB 5 2) ''John'' [line 1 3, line 2 2]) =
     Inr \<lparr>Order.ID = 1, CustomerName = ''John'', Items = [line 1 3, line 2 2],
          Status = OrderStatusConfirmed, CreatedAt = 7, UpdatedAt = 7\<rparr>"
  "stock_of (fst (CreateOrder 7 (store_AB 5 2) ''John'' [line 1 3, line 2 2])) 1 = Some 2"
  "stock_of (fst (CreateOrder 7 (store_AB 5 2) ''John'' [line 1 3, line 2 2])) 2 = Some 0"
  "snd (CancelOrder 8 (fst (CreateOrder 7 (store_AB 5 2) ''John'' [line 1 3, line 2 2])) 1) =
     Inr \<lparr>Order.ID = 1, CustomerName = ''John'', Items = [line 1 3, line 2 2],
          Status = OrderStatusCancelled, CreatedAt = 7, UpdatedAt = 8\<rparr>"
  "stock_of (fst (CancelOrder 8
     (fst (CreateOrder 7 (store_AB 5 2) ''John'' [line 1 3, line 2 2])) 1)) 1 = Some 5"
  "stock_of (fst (CancelOrder 8
     (fst (CreateOrder 7 (store_AB 5 2) ''John'' [line 1 3, line 2 2])) 1)) 2 = Some 2"
  by (simp_all add: model_defs product_B_def store_AB_def)

lemma TestCreateOrder_NotEnoughStock:
  "CreateOrder 7 (store_A 1) ''John'' [line 1 2] = (store_A 1, Inl ErrNotEnoughStock)"
  by (simp add: model_defs)

lemma TestPartialReturn:
  "snd (PartialReturn 8 (fst (CreateOrder 7 (store_AB 10 5) ''Jane'' [line 1 4, line 2 3])) 1
          [line 1 2, line 2 1]) =
     Inr \<lparr>Order.ID = 1, CustomerName = ''Jane'', Items = [line 1 2, line 2 2],
          Status = OrderStatusConfirmed, CreatedAt = 7, UpdatedAt = 8\<rparr>"
  "stock_of (fst (PartialReturn 8
     (fst (CreateOrder 7 (store_AB 10 5) ''Jane'' [line 1 4, line 2 3])) 1
     [line 1 2, line 2 1])) 1 = Some 8"
  "stock_of (fst (PartialReturn 8
     (fst (CreateOrder 7 (store_AB 10 5) ''Jane'' [line 1 4, line 2 3])) 1
     [line 1 2, line 2 1])) 2 = Some 3"
  by (simp_all add: model_defs product_B_def store_AB_def)

lemma TestPartialReturn_Exceed:
  "PartialReturn 8 store_confirmed 1 [line 1 3] = (store_confirmed, Inl ErrInvalidInput)"
  by (simp add: model_defs store_confirmed_def)

lemma TestCreateOrder_InvalidInput:
  "CreateOrder 7 (store_A 5) [] [line 1 1] = (store_A 5, Inl ErrInvalidInput)"
  "CreateOrder 7 (store_A 5) ''John'' [line 1 0] = (store_A 5, Inl ErrInvalidInput)"
  by (simp_all add: CreateOrder_def invalid_items_def line_def word_sle_eq)

section \<open>Records stay under their identifiers\<close>

lemma keyed_NewMemoryStore: "keyed NewMemoryStore"
  by (simp add: keyed_def NewMemoryStore_def)

lemma keyed_MemoryStore_Create:
  "keyed m \<Longrightarrow> keyed (fst (MemoryStore_Create m p))"
  by (simp add: keyed_def MemoryStore_Create_def Let_def)

lemma keyed_MemoryStore_Update:
  "keyed m \<Longrightarrow> MemoryStore_Update m p = Inr m' \<Longrightarrow> keyed m'"
  by (auto simp: keyed_def MemoryStore_Update_def split: option.splits if_splits)

lemma keyed_MemoryStore_Delete:
  "keyed m \<Longrightarrow> MemoryStore_Delete m pid = Inr m' \<Longrightarrow> keyed m'"
  by (auto simp: keyed_def MemoryStore_Delete_def split: option.splits if_splits)

lemma keyed_MemoryOrders_Create:
  "keyed m \<Longrightarrow> keyed (fst (MemoryOrders_Create now m ord))"
  by (simp add: keyed_def MemoryOrders_Create_def Let_def)

lemma keyed_MemoryOrders_Update:
  "keyed m \<Longrightarrow> MemoryOrders_Update now m ord = Inr (m', ord') \<Longrightarrow> keyed m'"
  by (auto simp: keyed_def MemoryOrders_Update_def Let_def split: option.splits if_splits)

lemma keyed_restore_stock:
  "keyed m \<Longrightarrow> restore_stock m pid n = Inr m' \<Longrightarrow> keyed m'"
  by (auto simp: restore_stock_def MemoryStore_GetByID_def split: option.splits
           dest: keyed_MemoryStore_Update)

lemma keyed_persist: "keyed m \<Longrightarrow> keyed (fst (persist m ps))"
proof (induction m ps rule: persist.induct)
  case (1 m)
  then show ?case by simp
next
  case (2 m k p ps)
  then show ?case
    by (cases "MemoryStore_Update m p") (auto dest: keyed_MemoryStore_Update)
qed

lemma keyed_return_stock: "keyed m \<Longrightarrow> keyed (fst (return_stock m its))"
proof (induction m its rule: return_stock.induct)
  case (1 m)
  then show ?case by simp
next
  case (2 m it its)
  then show ?case
    by (cases "restore_stock m (ProductID it) (Quantity it)") (auto dest: keyed_restore_stock)
qed

lemma keyed_apply_returns:
  "keyed m \<Longrightarrow> keyed (fst (apply_returns m returns its consumed newItems))"
proof (induction its arbitrary: m consumed newItems)
  case Nil
  then show ?case by simp
next
  case (Cons it its)
  show ?case
    using Cons.prems
    by (auto split: sum.splits intro!: Cons.IH dest: keyed_restore_stock)
qed

lemma keyed_CreateOrder: "keyed m \<Longrightarrow> keyed (fst (CreateOrder now m customer items))"
  using keyed_persist keyed_MemoryOrders_Create
  apply (auto simp: CreateOrder_def split: sum.splits prod.splits)
   apply (metis fst_conv)+
  done

lemma keyed_CancelOrder: "keyed m \<Longrightarrow> keyed (fst (CancelOrder now m oid))"
  using keyed_return_stock keyed_MemoryOrders_Update
  apply (auto simp: CancelOrder_def split: sum.splits prod.splits)
    apply (metis fst_conv)+
  done

lemma keyed_PartialReturn: "keyed m \<Longrightarrow> keyed (fst (PartialReturn now m oid returns))"
  using keyed_apply_returns keyed_MemoryOrders_Update
  apply (auto simp: PartialReturn_def split: sum.splits prod.splits)
    apply (metis fst_conv)+
  done

lemma keyed_perform: "keyed m \<Longrightarrow> keyed (perform m op)"
proof (cases op)
  case (ProductCreate p)
  assume "keyed m"
  then show ?thesis
    using keyed_MemoryStore_Create [of m p]
    by (auto simp: ProductCreate ProductService_Create_def split: prod.splits)
next
  case (ProductUpdate p)
  assume "keyed m"
  then show ?thesis
    by (auto simp: ProductUpdate ProductService_Update_def split: sum.splits
             dest: keyed_MemoryStore_Update)
next
  case (ProductDelete pid)
  assume "keyed m"
  then show ?thesis
    by (auto simp: ProductDelete ProductService_Delete_def split: sum.splits
             dest: keyed_MemoryStore_Delete)
next
  case (OrderCreate now customer items)
  assume "keyed m"
  then show ?thesis by (simp add: OrderCreate keyed_CreateOrder)
next
  case (OrderCancel now oid)
  assume "keyed m"
  then show ?thesis by (simp add: OrderCancel keyed_CancelOrder)
next
  case (OrderPartialReturn now oid returns)
  assume "keyed m"
  then show ?thesis by (simp add: OrderPartialReturn keyed_PartialReturn)
qed

lemma keyed_foldl_perform: "keyed m \<Longrightarrow> keyed (foldl perform m ops)"
  by (induction ops arbitrary: m) (simp_all add: keyed_perform)

lemma keyed_run: "keyed (run ops)"
  by (simp add: run_def keyed_foldl_perform keyed_NewMemoryStore)

section \<open>CancelOrder\<close>

lemma run_snoc: "run (ops @ [op]) = perform (run ops) op"
  by (simp add: run_def)

lemma MemoryOrders_Update_keyed_eq:
  "ordersByID m oid = Some old \<Longrightarrow> Order.ID ord = oid \<Longrightarrow>
   MemoryOrders_Update now m ord =
     Inr (m\<lparr>ordersByID := (ordersByID m)(oid \<mapsto> ord\<lparr>UpdatedAt := now\<rparr>)\<rparr>, ord\<lparr>UpdatedAt := now\<rparr>)"
  by (simp add: MemoryOrders_Update_def Let_def)

lemma restore_stock_orders:
  "restore_stock m pid n = Inr m' \<Longrightarrow> ordersByID m' = ordersByID m"
  by (auto simp: restore_stock_def MemoryStore_GetByID_def MemoryStore_Update_def
        split: option.splits)

lemma return_stock_orders: "ordersByID (fst (return_stock m its)) = ordersByID m"
proof (induction its arbitrary: m)
  case Nil
  then show ?case by simp
next
  case (Cons it its)
  then show ?case
    by (auto split: sum.splits dest: restore_stock_orders)
qed

text \<open>
  C7: \<^verbatim>\<open>CancelOrder\<close> on an order whose status is not Confirmed fails with
  \<^verbatim>\<open>ErrInvalidState\<close> and returns the store as it was, so no stock changes. Hence
  a second cancellation fails: whenever \<^verbatim>\<open>CancelOrder\<close> succeeds on a store whose
  records sit under their identifiers, the same call on the resulting store fails with
  \<^verbatim>\<open>ErrInvalidState\<close> and leaves that store untouched. Order identifiers are
  positive, as the counter that assigns them starts at 1.
\<close>

theorem CancelOrder_not_confirmed:
  "(0 <s oid \<and> ordersByID m oid = Some ord \<and> Status ord \<noteq> OrderStatusConfirmed
      \<longrightarrow> CancelOrder now m oid = (m, Inl ErrInvalidState)) \<and>
   (keyed m \<and> CancelOrder now m oid = (m', Inr cancelled)
      \<longrightarrow> CancelOrder now' m' oid = (m', Inl ErrInvalidState))"
proof (intro conjI impI)
  assume "0 <s oid \<and> ordersByID m oid = Some ord \<and> Status ord \<noteq> OrderStatusConfirmed"
  then show "CancelOrder now m oid = (m, Inl ErrInvalidState)"
    by (auto simp: CancelOrder_def MemoryOrders_GetByID_def)
next
  assume a: "keyed m \<and> CancelOrder now m oid = (m', Inr cancelled)"
  then have pos: "\<not> oid \<le>s 0"
    by (auto simp: CancelOrder_def split: if_splits)
  from a pos obtain ord0 where ord0: "ordersByID m oid = Some ord0"
    by (auto simp: CancelOrder_def MemoryOrders_GetByID_def split: option.splits)
  with a have id0: "Order.ID ord0 = oid"
    by (simp add: keyed_def)
  obtain m1 r where rs: "return_stock m (Items ord0) = (m1, r)"
    by (cases "return_stock m (Items ord0)")
  then have o1: "ordersByID m1 = ordersByID m"
    using return_stock_orders [of m "Items ord0"] by simp
  have upd: "MemoryOrders_Update now m1 (ord0\<lparr>Status := OrderStatusCancelled\<rparr>) =
      Inr (m1\<lparr>ordersByID :=
                (ordersByID m1)(oid \<mapsto> ord0\<lparr>Status := OrderStatusCancelled, UpdatedAt := now\<rparr>)\<rparr>,
           ord0\<lparr>Status := OrderStatusCancelled, UpdatedAt := now\<rparr>)"
    using MemoryOrders_Update_keyed_eq [of m1 oid ord0 "ord0\<lparr>Status := OrderStatusCancelled\<rparr>" now]
      o1 ord0 id0 by simp
  from a pos ord0 rs upd
  have "ordersByID m' oid = Some (ord0\<lparr>Status := OrderStatusCancelled, UpdatedAt := now\<rparr>)"
    by (auto simp: CancelOrder_def MemoryOrders_GetByID_def split: if_splits sum.splits)
  with pos show "CancelOrder now' m' oid = (m', Inl ErrInvalidState)"
    by (simp add: CancelOrder_def MemoryOrders_GetByID_def)
qed

text \<open>
  Cancelling twice, as in \<^verbatim>\<open>TestCancelOrder_InvalidState\<close>: the first call turns
  \<open>store_confirmed\<close> into \<open>store_cancelled\<close>, the second fails and changes nothing.
\<close>

theorem CancelOrder_not_confirmed_witness:
  "snd (CancelOrder 8 store_confirmed 1) =
     Inr \<lparr>Order.ID = 1, CustomerName = ''Jane'', Items = [line 1 2],
          Status = OrderStatusCancelled, CreatedAt = 7, UpdatedAt = 8\<rparr> \<and>
   CancelOrder 9 store_cancelled 1 = (store_cancelled, Inl ErrInvalidState)"
proof -
  let ?cancelled = "\<lparr>Order.ID = 1, CustomerName = ''Jane'', Items = [line 1 2],
          Status = OrderStatusCancelled, CreatedAt = 7, UpdatedAt = 8\<rparr>"
  have k: "keyed store_confirmed"
    by (simp add: store_confirmed_def keyed_run)
  have r: "snd (CancelOrder 8 store_confirmed 1) = Inr ?cancelled"
    by (simp add: model_defs store_confirmed_def)
  have "fst (CancelOrder 8 store_confirmed 1) = store_cancelled"
    using run_snoc [of "[ProductCreate (product_A 10), OrderCreate 7 ''Jane'' [line 1 2]]"
        "OrderCancel 8 1"]
    by (simp add: store_confirmed_def store_cancelled_def)
  with r have c: "CancelOrder 8 store_confirmed 1 = (store_cancelled, Inr ?cancelled)"
    by (simp add: prod_eq_iff)
  have p: "0 <s (1 :: int64)"
    by (simp add: word_sless_alt)
  have s: "ordersByID store_cancelled 1 = Some ?cancelled"
    by (simp add: model_defs store_cancelled_def)
  have n: "Status ?cancelled \<noteq> OrderStatusConfirmed"
    by simp
  from CancelOrder_not_confirmed [of 1 store_cancelled ?cancelled 9] p s n
  have first: "CancelOrder 9 store_cancelled 1 = (store_cancelled, Inl ErrInvalidState)"
    by blast
  from CancelOrder_not_confirmed [of 1 store_confirmed _ 8 store_cancelled ?cancelled 9] k c
  have "CancelOrder 9 store_cancelled 1 = (store_cancelled, Inl ErrInvalidState)"
    by blast
  with r first show ?thesis
    by simp
qed

text \<open>
  C9: on a store whose records sit under their identifiers, \<^verbatim>\<open>CancelOrder\<close> on a
  Confirmed order without line items succeeds: the order comes back Cancelled, with the
  time of the call as its update time, and is stored so; the products, and with them
  every stock, are unchanged.
\<close>

theorem CancelOrder_empty_order:
  assumes "keyed m" and "0 <s oid" and "ordersByID m oid = Some ord"
    and "Status ord = OrderStatusConfirmed" and "Items ord = []"
  shows "snd (CancelOrder now m oid) =
           Inr (ord\<lparr>Status := OrderStatusCancelled, UpdatedAt := now\<rparr>) \<and>
         ordersByID (fst (CancelOrder now m oid)) oid =
           Some (ord\<lparr>Status := OrderStatusCancelled, UpdatedAt := now\<rparr>) \<and>
         productsByID (fst (CancelOrder now m oid)) = productsByID m"
proof -
  from assms(1,3) have "Order.ID ord = oid"
    by (simp add: keyed_def)
  then have "MemoryOrders_Update now m (ord\<lparr>Status := OrderStatusCancelled\<rparr>) =
      Inr (m\<lparr>ordersByID :=
               (ordersByID m)(oid \<mapsto> ord\<lparr>Status := OrderStatusCancelled, UpdatedAt := now\<rparr>)\<rparr>,
           ord\<lparr>Status := OrderStatusCancelled, UpdatedAt := now\<rparr>)"
    using MemoryOrders_Update_keyed_eq [of m oid ord "ord\<lparr>Status := OrderStatusCancelled\<rparr>" now]
      assms(3)
    by simp
  moreover from assms(2) have "\<not> oid \<le>s 0"
    by (simp add: word_sle_eq word_sless_alt)
  ultimately show ?thesis
    using assms(3-5) by (simp add: CancelOrder_def MemoryOrders_GetByID_def)
qed

text \<open>
  The order of \<open>store_emptied\<close> lost its only line item to a partial return; cancelling
  it succeeds and the stock of product 1 stays at 10.
\<close>

theorem CancelOrder_empty_order_witness:
  "snd (CancelOrder 9 store_emptied 1) =
     Inr \<lparr>Order.ID = 1, CustomerName = ''Jane'', Items = [],
          Status = OrderStatusCancelled, CreatedAt = 7, UpdatedAt = 9\<rparr> \<and>
   stock_of store_emptied 1 = Some 10 \<and>
   stock_of (fst (CancelOrder 9 store_emptied 1)) 1 = Some 10"
proof -
  let ?ord = "\<lparr>Order.ID = 1, CustomerName = ''Jane'', Items = [],
          Status = OrderStatusConfirmed, CreatedAt = 7, UpdatedAt = 8\<rparr>"
  have k: "keyed store_emptied"
    by (simp add: store_emptied_def keyed_run)
  have p: "0 <s (1 :: int64)"
    by (simp add: word_sless_alt)
  have s: "ordersByID store_emptied 1 = Some ?ord"
    by (simp add: model_defs store_emptied_def)
  have st: "stock_of store_emptied 1 = Some 10"
    by (simp add: model_defs store_emptied_def)
  from CancelOrder_empty_order [OF k p s, of 9] st show ?thesis
    by (simp add: stock_of_def)
qed

section \<open>64-bit arithmetic that stays in range\<close>

lemma sint_add_int64:
  fixes a b :: int64
  assumes "- 9223372036854775808 \<le> sint a + sint b" and "sint a + sint b < 9223372036854775808"
  shows "sint (a + b) = sint a + sint b"
  using assms by (simp add: sint_word_add signed_take_bit_int_eq_self)

lemma sint_diff_int64:
  fixes a b :: int64
  assumes "- 9223372036854775808 \<le> sint a - sint b" and "sint a - sint b < 9223372036854775808"
  shows "sint (a - b) = sint a - sint b"
  using assms by (simp add: sint_word_diff signed_take_bit_int_eq_self)

lemma sint_int64_range:
  fixes a :: int64
  shows "- 9223372036854775808 \<le> sint a" and "sint a < 9223372036854775808"
  using sint_ge [of a] sint_lt [of a] by simp_all

lemma need_positive:
  fixes t c :: int64
  assumes "0 \<le> sint c" and "sint c < sint t"
  shows "sint (t - c) = sint t - sint c"
  using assms sint_int64_range [of t] by (intro sint_diff_int64) simp_all

lemma sint_word_of_int64:
  fixes a :: int64
  assumes "- 9223372036854775808 \<le> sint a + r" and "sint a + r < 9223372036854775808"
  shows "sint (a + word_of_int r) = sint a + r"
proof -
  have "sint (word_of_int (sint a + r) :: int64) = signed_take_bit 63 (sint a + r)"
    by (subst sint_sbintrunc') simp
  also have "\<dots> = sint a + r"
    using assms by (simp add: signed_take_bit_int_eq_self)
  finally show ?thesis
    by simp
qed

text \<open>
  An addition of a positive number to a non-negative one that does not keep its integer
  value has wrapped around to a negative number.
\<close>

lemma sint_add_wraps:
  fixes a b :: int64
  assumes "0 \<le> sint a" and "0 < sint b" and "sint (a + b) \<noteq> sint a + sint b"
  shows "sint (a + b) < 0"
proof -
  have ge: "9223372036854775808 \<le> sint a + sint b"
  proof (rule ccontr)
    assume "\<not> 9223372036854775808 \<le> sint a + sint b"
    with assms(1,2) have "sint (a + b) = sint a + sint b"
      by (intro sint_add_int64) simp_all
    with assms(3) show False by simp
  qed
  have "sint (a + b) = signed_take_bit 63 (sint a + sint b)"
    by (simp add: sint_word_add)
  also have "\<dots> \<le> sint a + sint b - 2 ^ Suc 63"
    using ge by (intro signed_take_bit_int_less_eq) simp
  finally show ?thesis
    using sint_int64_range(2) [of a] sint_int64_range(2) [of b] by simp
qed

section \<open>Line items stay positive\<close>

text \<open>
  One round of the loop of \<^verbatim>\<open>PartialReturn\<close>, on a line item of positive quantity
  that is not kept as it is, with non-negative counters: the loop restores the need or
  the quantity of the item, whichever is less. That is a positive quantity, the
  counters stay non-negative, and what is kept of the item, if anything, is positive.
\<close>

lemma apply_returns_step:
  assumes c0: "\<forall>k. 0 \<le> sint (consumed k)" and a0: "0 < sint (Quantity it)"
    and nk: "\<not> totalReturn returns (ProductID it) \<le>s consumed (ProductID it)"
    and n: "n = (if totalReturn returns (ProductID it) - consumed (ProductID it) <s Quantity it
                 then totalReturn returns (ProductID it) - consumed (ProductID it)
                 else Quantity it)"
  shows "0 < sint n \<and> sint n \<le> sint (Quantity it) \<and>
         (\<forall>k. 0 \<le> sint ((consumed(ProductID it := consumed (ProductID it) + n)) k)) \<and>
         (\<exists>kept. positive_lines kept \<and>
            apply_returns m returns (it # its) consumed newItems =
              (case restore_stock m (ProductID it) n of
                 Inl e \<Rightarrow> (m, Inl e)
               | Inr m' \<Rightarrow>
                   apply_returns m' returns its
                     (consumed(ProductID it := consumed (ProductID it) + n))
                     (newItems @ kept)))"
proof -
  let ?pid = "ProductID it"
  let ?t = "totalReturn returns ?pid"
  let ?c = "consumed ?pid"
  let ?a = "Quantity it"
  from nk have ct: "sint ?c < sint ?t"
    by (simp add: word_sle_eq)
  from c0 have c0': "0 \<le> sint ?c"
    by simp
  have need: "sint (?t - ?c) = sint ?t - sint ?c"
    using c0' ct by (rule need_positive)
  have t0: "0 \<le> sint ?t"
    using c0' ct by simp
  show ?thesis
  proof (cases "?t - ?c <s ?a")
    case True
    then have lt: "sint ?t - sint ?c < sint ?a"
      by (simp add: word_sless_alt need)
    have rem: "sint (?a - (?t - ?c)) = sint ?a - sint (?t - ?c)"
      using lt ct need sint_int64_range [of ?a] by (intro sint_diff_int64) simp_all
    have kept: "positive_lines [it\<lparr>Quantity := ?a - (?t - ?c)\<rparr>]"
      using lt rem need by (simp add: positive_lines_def word_sless_alt)
    have "\<exists>kept. positive_lines kept \<and>
        apply_returns m returns (it # its) consumed newItems =
          (case restore_stock m ?pid (?t - ?c) of
             Inl e \<Rightarrow> (m, Inl e)
           | Inr m' \<Rightarrow>
               apply_returns m' returns its (consumed(?pid := ?c + (?t - ?c)))
                 (newItems @ kept))"
      using kept nk True by (intro exI [of _ "[it\<lparr>Quantity := ?a - (?t - ?c)\<rparr>]"]) simp
    moreover have "0 < sint (?t - ?c)" "sint (?t - ?c) \<le> sint ?a"
      using ct lt need by simp_all
    moreover have "\<forall>k. 0 \<le> sint ((consumed(?pid := ?c + (?t - ?c))) k)"
      using c0 t0 by simp
    moreover from n True have "n = ?t - ?c"
      by simp
    ultimately show ?thesis
      by blast
  next
    case nr: False
    then have ge: "sint ?a \<le> sint ?t - sint ?c"
      by (simp add: word_sless_alt need)
    have sum: "sint (?c + ?a) = sint ?c + sint ?a"
      using c0' a0 ge sint_int64_range [of ?t] by (intro sint_add_int64) simp_all
    have "\<exists>kept. positive_lines kept \<and>
        apply_returns m returns (it # its) consumed newItems =
          (case restore_stock m ?pid ?a of
             Inl e \<Rightarrow> (m, Inl e)
           | Inr m' \<Rightarrow>
               apply_returns m' returns its (consumed(?pid := ?c + ?a)) (newItems @ kept))"
      using nk nr
      by (intro exI [of _ "[]"]) (auto simp: positive_lines_def cong: sum.case_cong)
    moreover have "\<forall>k. 0 \<le> sint ((consumed(?pid := ?c + ?a)) k)"
      using c0 a0 sum by simp
    moreover from n nr have "n = ?a"
      by simp
    ultimately show ?thesis
      using a0 by auto
  qed
qed

lemma positive_lines_append:
  "positive_lines (xs @ ys) \<longleftrightarrow> positive_lines xs \<and> positive_lines ys"
  by (simp add: positive_lines_def)

lemma positive_apply_returns:
  "positive_lines its \<Longrightarrow> \<forall>k. 0 \<le> sint (consumed k) \<Longrightarrow> positive_lines newItems \<Longrightarrow>
   snd (apply_returns m returns its consumed newItems) = Inr rebuilt \<Longrightarrow>
     positive_lines rebuilt"
proof (induction its arbitrary: m consumed newItems)
  case Nil
  then show ?case by simp
next
  case (Cons it its)
  let ?pid = "ProductID it"
  let ?t = "totalReturn returns ?pid"
  let ?c = "consumed ?pid"
  let ?n = "if ?t - ?c <s Quantity it then ?t - ?c else Quantity it"
  from Cons.prems(1) have a0: "0 < sint (Quantity it)" and pl: "positive_lines its"
    by (simp_all add: positive_lines_def word_sless_alt)
  show ?case
  proof (cases "?t \<le>s ?c")
    case True
    with Cons.prems(4)
    have "snd (apply_returns m returns its consumed (newItems @ [it])) = Inr rebuilt"
      by simp
    moreover have "positive_lines (newItems @ [it])"
      using Cons.prems(3) a0 by (simp add: positive_lines_def word_sless_alt)
    ultimately show ?thesis
      using Cons.IH [of consumed "newItems @ [it]" m] pl Cons.prems(2) by blast
  next
    case False
    from apply_returns_step [OF Cons.prems(2) a0 False refl, of m its newItems]
    obtain kept where c': "\<forall>k. 0 \<le> sint ((consumed(?pid := ?c + ?n)) k)"
      and kept: "positive_lines kept"
      and eq: "apply_returns m returns (it # its) consumed newItems =
        (case restore_stock m ?pid ?n of
           Inl e \<Rightarrow> (m, Inl e)
         | Inr m' \<Rightarrow>
             apply_returns m' returns its (consumed(?pid := ?c + ?n)) (newItems @ kept))"
      by blast
    show ?thesis
    proof (cases "restore_stock m ?pid ?n")
      case (Inl e)
      with eq Cons.prems(4) show ?thesis by simp
    next
      case (Inr m1)
      with eq Cons.prems(4)
      have "snd (apply_returns m1 returns its (consumed(?pid := ?c + ?n)) (newItems @ kept))
          = Inr rebuilt"
        by simp
      moreover have "positive_lines (newItems @ kept)"
        using Cons.prems(3) kept by (simp add: positive_lines_append)
      ultimately show ?thesis
        using Cons.IH [of "consumed(?pid := ?c + ?n)" "newItems @ kept" m1] pl c' by blast
    qed
  qed
qed

lemma valid_items_positive: "\<not> invalid_items items \<Longrightarrow> positive_lines items"
  by (auto simp: invalid_items_def positive_lines_def list_ex_iff list_all_iff
        word_sle_eq word_sless_alt)

lemma persist_orders: "ordersByID (fst (persist m ps)) = ordersByID m"
proof (induction m ps rule: persist.induct)
  case (1 m)
  then show ?case by simp
next
  case (2 m k p ps)
  then show ?case
    by (cases "MemoryStore_Update m p")
      (auto simp: MemoryStore_Update_def split: option.splits)
qed

lemma apply_returns_orders:
  "ordersByID (fst (apply_returns m returns its consumed newItems)) = ordersByID m"
proof (induction its arbitrary: m consumed newItems)
  case Nil
  then show ?case by simp
next
  case (Cons it its)
  have step: "ordersByID (fst (apply_returns m1 returns its c ns)) = ordersByID m"
    if "restore_stock m (ProductID it) n = Inr m1" for m1 n c ns
    using restore_stock_orders [OF that] Cons.IH [of m1 c ns] by simp
  show ?case
    using Cons.IH [of m consumed "newItems @ [it]"]
    by (auto simp: step split: sum.splits)
qed

lemma MemoryOrders_Update_products:
  "MemoryOrders_Update now m ord = Inr (m', ord') \<Longrightarrow>
     productsByID m' = productsByID m \<and> ord' = ord\<lparr>UpdatedAt := now\<rparr> \<and>
     ordersByID m' = (ordersByID m)(Order.ID ord \<mapsto> ord')"
  by (auto simp: MemoryOrders_Update_def Let_def split: option.splits)

lemma quantities_positive_CreateOrder:
  assumes "quantities_positive m"
  shows "quantities_positive (fst (CreateOrder now m customer items))"
proof (cases "customer = [] \<or> items = [] \<or> invalid_items items")
  case True
  with assms show ?thesis
    by (auto simp: CreateOrder_def)
next
  case valid: False
  then have pl: "positive_lines items"
    by (simp add: valid_items_positive)
  show ?thesis
  proof (cases "reserve m items []")
    case (Inl e)
    with valid assms show ?thesis
      by (auto simp: CreateOrder_def)
  next
    case (Inr pc)
    have o1: "ordersByID (fst (persist m pc)) = ordersByID m"
      by (rule persist_orders)
    from valid Inr o1 assms pl show ?thesis
      by (auto simp: CreateOrder_def MemoryOrders_Create_def Let_def
            quantities_positive_def split: sum.splits prod.splits)
  qed
qed

lemma quantities_positive_CancelOrder:
  assumes "quantities_positive m"
  shows "quantities_positive (fst (CancelOrder now m oid))"
proof (cases "ordersByID m oid")
  case None
  with assms show ?thesis
    by (auto simp: CancelOrder_def MemoryOrders_GetByID_def)
next
  case (Some ord)
  with assms have pl: "positive_lines (Items ord)"
    by (auto simp: quantities_positive_def)
  obtain m1 r where rs: "return_stock m (Items ord) = (m1, r)"
    by (cases "return_stock m (Items ord)")
  with return_stock_orders [of m "Items ord"] have "ordersByID m1 = ordersByID m"
    by simp
  with assms have qp1: "quantities_positive m1"
    by (simp add: quantities_positive_def)
  show ?thesis
  proof (cases "MemoryOrders_Update now m1 (ord\<lparr>Status := OrderStatusCancelled\<rparr>)")
    case (Inl e)
    with Some rs assms qp1 show ?thesis
      by (auto simp: CancelOrder_def MemoryOrders_GetByID_def split: sum.splits)
  next
    case (Inr res)
    obtain m2 ord' where res: "res = (m2, ord')"
      by (cases res)
    from MemoryOrders_Update_products [OF Inr [unfolded res]] qp1 pl
    have "quantities_positive m2"
      by (auto simp: quantities_positive_def)
    with Some rs Inr res assms qp1 show ?thesis
      by (auto simp: CancelOrder_def MemoryOrders_GetByID_def split: sum.splits)
  qed
qed

lemma quantities_positive_PartialReturn:
  assumes "quantities_positive m"
  shows "quantities_positive (fst (PartialReturn now m oid returns))"
proof (cases "ordersByID m oid")
  case None
  with assms show ?thesis
    by (auto simp: PartialReturn_def MemoryOrders_GetByID_def)
next
  case (Some ord)
  with assms have pl: "positive_lines (Items ord)"
    by (auto simp: quantities_positive_def)
  obtain m1 r where ar: "apply_returns m returns (Items ord) (\<lambda>_. 0) [] = (m1, r)"
    by (cases "apply_returns m returns (Items ord) (\<lambda>_. 0) []")
  with apply_returns_orders [of m returns "Items ord" "\<lambda>_. 0" "[]"]
  have "ordersByID m1 = ordersByID m"
    by simp
  with assms have qp1: "quantities_positive m1"
    by (simp add: quantities_positive_def)
  show ?thesis
  proof (cases r)
    case (Inl e)
    with Some ar assms qp1 show ?thesis
      by (auto simp: PartialReturn_def MemoryOrders_GetByID_def)
  next
    case (Inr newItems)
    with ar positive_apply_returns [of "Items ord" "\<lambda>_. 0" "[]" m returns newItems] pl
    have pn: "positive_lines newItems"
      by (simp add: positive_lines_def)
    show ?thesis
    proof (cases "MemoryOrders_Update now m1 (ord\<lparr>Items := newItems\<rparr>)")
      case (Inl e)
      with Some ar Inr assms qp1 show ?thesis
        by (auto simp: PartialReturn_def MemoryOrders_GetByID_def)
    next
      case upd: (Inr res)
      obtain m2 ord' where res: "res = (m2, ord')"
        by (cases res)
      from MemoryOrders_Update_products [OF upd [unfolded res]] qp1 pn
      have "quantities_positive m2"
        by (auto simp: quantities_positive_def)
      with Some ar Inr upd res assms qp1 show ?thesis
        by (auto simp: PartialReturn_def MemoryOrders_GetByID_def)
    qed
  qed
qed

lemma quantities_positive_perform:
  assumes "quantities_positive m"
  shows "quantities_positive (perform m op)"
proof (cases op)
  case (ProductCreate p)
  with assms show ?thesis
    by (auto simp: quantities_positive_def ProductService_Create_def MemoryStore_Create_def
          Let_def)
next
  case (ProductUpdate p)
  with assms show ?thesis
    by (auto simp: quantities_positive_def ProductService_Update_def MemoryStore_Update_def
          split: option.splits)
next
  case (ProductDelete pid)
  with assms show ?thesis
    by (auto simp: quantities_positive_def ProductService_Delete_def MemoryStore_Delete_def
          split: option.splits if_splits)
next
  case (OrderCreate now customer items)
  with assms show ?thesis
    by (simp add: quantities_positive_CreateOrder)
next
  case (OrderCancel now oid)
  with assms show ?thesis
    by (simp add: quantities_positive_CancelOrder)
next
  case (OrderPartialReturn now oid returns)
  with assms show ?thesis
    by (simp add: quantities_positive_PartialReturn)
qed

lemma quantities_positive_foldl_perform:
  "quantities_positive m \<Longrightarrow> quantities_positive (foldl perform m ops)"
  by (induction ops arbitrary: m) (simp_all add: quantities_positive_perform)

text \<open>Every store reached from \<^verbatim>\<open>NewMemoryStore()\<close> has positive line items only.\<close>

lemma quantities_positive_NewMemoryStore: "quantities_positive NewMemoryStore"
  by (simp add: quantities_positive_def NewMemoryStore_def)

lemma quantities_positive_run: "quantities_positive (run ops)"
  unfolding run_def
  using quantities_positive_NewMemoryStore by (rule quantities_positive_foldl_perform)

section \<open>PartialReturn against the specified walk\<close>

text \<open>
  The total of the code is the 64-bit sum of the matching entries; it is the integer
  total of the specification when the entries are positive and that total is below
  \<open>2\<^sup>6\<^sup>3\<close>.
\<close>

lemma fold_totalReturn:
  "fold (\<lambda>r t. if ProductID r = pid then t + Quantity r else t) returns acc =
     acc + units_held returns pid"
  by (induction returns arbitrary: acc) (simp_all add: units_held_def add.assoc)

lemma totalReturn_units_held: "totalReturn returns pid = units_held returns pid"
  by (simp add: totalReturn_def fold_totalReturn)

lemma spec_totalReturn_held: "spec_totalReturn returns pid = held returns pid"
  by (simp add: spec_totalReturn_def held_def)

lemma held_nonneg: "positive_lines items \<Longrightarrow> 0 \<le> held items k"
  by (induction items) (auto simp: positive_lines_def held_def word_sless_alt)

lemma held_Cons:
  "held (it # its) k = (if ProductID it = k then sint (Quantity it) else 0) + held its k"
  by (simp add: held_def)

lemma held_mono: "positive_lines (r # rs) \<Longrightarrow> held rs k \<le> held (r # rs) k"
  by (simp add: held_Cons positive_lines_def word_sless_alt)

lemma sint_units_held:
  "positive_lines returns \<Longrightarrow> held returns k < 9223372036854775808 \<Longrightarrow>
     sint (units_held returns k) = held returns k"
proof (induction returns)
  case Nil
  then show ?case
    by (simp add: units_held_def held_def)
next
  case (Cons r rs)
  from Cons.prems(1) have q0: "0 < sint (Quantity r)" and pl: "positive_lines rs"
    by (simp_all add: positive_lines_def word_sless_alt)
  from held_mono [OF Cons.prems(1), of k] Cons.prems(2) have "held rs k < 9223372036854775808"
    by simp
  with Cons.IH [OF pl] have ih: "sint (units_held rs k) = held rs k"
    by simp
  show ?case
  proof (cases "ProductID r = k")
    case True
    have "sint (Quantity r + units_held rs k) = sint (Quantity r) + sint (units_held rs k)"
      using q0 ih held_nonneg [OF pl, of k] Cons.prems(2) True
      by (intro sint_add_int64) (simp_all add: held_Cons)
    with True ih show ?thesis
      by (simp add: units_held_def held_Cons)
  next
    case False
    with ih show ?thesis
      by (simp add: units_held_def held_Cons)
  qed
qed

lemma sint_totalReturn:
  "\<not> invalid_items returns \<Longrightarrow> spec_totalReturn returns k < 9223372036854775808 \<Longrightarrow>
     sint (totalReturn returns k) = spec_totalReturn returns k"
  by (simp add: totalReturn_units_held spec_totalReturn_held sint_units_held
        valid_items_positive)

lemma restore_stock_keyed_eq:
  assumes "keyed m" and "restore_stock m pid n = Inr m'"
  shows "productsByID m' = stock_added (productsByID m) pid n"
    and "ordersByID m' = ordersByID m"
    and "nextProdID m' = nextProdID m" and "nextOrderID m' = nextOrderID m"
  using assms
  by (auto simp: keyed_def restore_stock_def stock_added_def MemoryStore_GetByID_def
        MemoryStore_Update_def split: option.splits)

lemma stock_added_apply:
  "stock_added ps pid n k =
     (if k = pid then map_option (\<lambda>p. p\<lparr>Stock := Stock p + n\<rparr>) (ps pid) else ps k)"
  by (simp add: stock_added_def split: option.splits)

text \<open>
  The loop of the code against the walk. The counters of the code are those of the
  walk, read as integers, and so are its totals; the line items are positive. When the
  loop returns without error it has appended to \<open>newItems\<close> the items that the walk
  keeps, and it has added to every stock, in 64 bits, the units that the walk restores.
\<close>

lemma apply_returns_spec_walk:
  "keyed m \<Longrightarrow> positive_lines its \<Longrightarrow>
   \<forall>k. requested k = sint (totalReturn returns k) \<Longrightarrow>
   \<forall>k. 0 \<le> sint (consumed k) \<Longrightarrow> \<forall>k. cint k = sint (consumed k) \<Longrightarrow>
   apply_returns m returns its consumed newItems = (m', Inr rebuilt) \<Longrightarrow>
     quantities rebuilt =
       quantities newItems @ fst (spec_walk requested (quantities its) cint restored) \<and>
     (\<forall>k. productsByID m' k =
        map_option
          (\<lambda>p. p\<lparr>Stock := Stock p
             + word_of_int (snd (spec_walk requested (quantities its) cint restored) k
                 - restored k)\<rparr>)
          (productsByID m k)) \<and>
     ordersByID m' = ordersByID m"
proof (induction its arbitrary: m consumed cint newItems restored)
  case Nil
  then show ?case
    by (simp add: quantities_def option.map_ident)
next
  case (Cons it its)
  let ?pid = "ProductID it"
  let ?t = "totalReturn returns ?pid"
  let ?c = "consumed ?pid"
  let ?a = "Quantity it"
  note k = Cons.prems(1) and rq = Cons.prems(3) and c0 = Cons.prems(4)
    and ci = Cons.prems(5) and run = Cons.prems(6)
  from Cons.prems(2) have a0: "0 < sint ?a" and pl: "positive_lines its"
    by (simp_all add: positive_lines_def word_sless_alt)
  from rq have T: "requested ?pid = sint ?t" by simp
  from ci have C: "cint ?pid = sint ?c" by simp
  from c0 have c0': "0 \<le> sint ?c" by simp
  have q: "quantities (it # its) = (?pid, sint ?a) # quantities its"
    by (simp add: quantities_def)
  show ?case
  proof (cases "?t \<le>s ?c")
    case True
    with run
    have "apply_returns m returns its consumed (newItems @ [it]) = (m', Inr rebuilt)"
      by simp
    from Cons.IH [OF k pl rq c0 ci this, of restored] True T C show ?thesis
      by (simp add: q case_prod_beta word_sle_eq quantities_def)
  next
    case nk: False
    then have ct: "sint ?c < sint ?t"
      by (simp add: word_sle_eq)
    have need: "sint (?t - ?c) = sint ?t - sint ?c"
      using c0' ct by (rule need_positive)
    have t0: "0 \<le> sint ?t"
      using c0' ct by simp
    have nkw: "\<not> requested ?pid \<le> cint ?pid"
      using ct T C by simp
    have after: "quantities rebuilt =
          quantities newItems' @ fst (spec_walk requested (quantities its) cint' restored') \<and>
        (\<forall>j. productsByID m' j =
           map_option
             (\<lambda>p. p\<lparr>Stock := Stock p
                + word_of_int (snd (spec_walk requested (quantities its) cint' restored') j
                    - restored j)\<rparr>)
             (productsByID m j)) \<and>
        ordersByID m' = ordersByID m"
      if r: "restore_stock m ?pid n = Inr m1"
        and a: "apply_returns m1 returns its consumed' newItems' = (m', Inr rebuilt)"
        and c': "\<forall>j. 0 \<le> sint (consumed' j)" and ci': "\<forall>j. cint' j = sint (consumed' j)"
        and r': "restored' = restored(?pid := restored ?pid + sint n)"
      for m1 n consumed' newItems' cint' restored'
    proof -
      have k1: "keyed m1"
        using keyed_restore_stock [OF k r] .
      note ih = Cons.IH [OF k1 pl rq c' ci' a, of restored']
      have p1: "productsByID m1 j = stock_added (productsByID m) ?pid n j" for j
        using restore_stock_keyed_eq(1) [OF k r] by simp
      have o1: "ordersByID m1 = ordersByID m"
        using restore_stock_keyed_eq(2) [OF k r] .
      have "productsByID m' j =
           map_option
             (\<lambda>p. p\<lparr>Stock := Stock p
                + word_of_int (snd (spec_walk requested (quantities its) cint' restored') j
                    - restored j)\<rparr>)
             (productsByID m j)" for j
      proof (cases "j = ?pid")
        case True
        from ih have "productsByID m' j =
            map_option
             (\<lambda>p. p\<lparr>Stock := Stock p
                + word_of_int (snd (spec_walk requested (quantities its) cint' restored') j
                    - restored' j)\<rparr>)
             (productsByID m1 j)"
          by blast
        with True show ?thesis
          by (simp add: p1 stock_added_apply r' option.map_comp comp_def)
      next
        case False
        from ih have "productsByID m' j =
            map_option
             (\<lambda>p. p\<lparr>Stock := Stock p
                + word_of_int (snd (spec_walk requested (quantities its) cint' restored') j
                    - restored' j)\<rparr>)
             (productsByID m1 j)"
          by blast
        with False show ?thesis
          by (simp add: p1 stock_added_apply r')
      qed
      with ih o1 show ?thesis
        by simp
    qed
    show ?thesis
    proof (cases "?t - ?c <s ?a")
      case True
      then have lt: "sint ?t - sint ?c < sint ?a"
        by (simp add: word_sless_alt need)
      have rem: "sint (?a - (?t - ?c)) = sint ?a - sint (?t - ?c)"
        using lt ct need sint_int64_range [of ?a] by (intro sint_diff_int64) simp_all
      from nk True run obtain m1 where
        r: "restore_stock m ?pid (?t - ?c) = Inr m1" and
        a: "apply_returns m1 returns its (consumed(?pid := ?c + (?t - ?c)))
              (newItems @ [it\<lparr>Quantity := ?a - (?t - ?c)\<rparr>]) = (m', Inr rebuilt)"
        by (auto split: sum.splits)
      have c': "\<forall>j. 0 \<le> sint ((consumed(?pid := ?c + (?t - ?c))) j)"
        using c0 t0 by simp
      have ci': "\<forall>j. (cint(?pid := cint ?pid + (requested ?pid - cint ?pid))) j =
          sint ((consumed(?pid := ?c + (?t - ?c))) j)"
        using ci T by simp
      have r': "restored(?pid := restored ?pid + (requested ?pid - cint ?pid)) =
          restored(?pid := restored ?pid + sint (?t - ?c))"
        using T C need by simp
      from after [where cint' = "cint(?pid := cint ?pid + (requested ?pid - cint ?pid))"
          and restored' = "restored(?pid := restored ?pid + (requested ?pid - cint ?pid))",
          OF r a c' ci' r']
        nkw lt T C rem need
      show ?thesis
        by (simp add: q case_prod_beta quantities_def fun_upd_def)
    next
      case nr: False
      then have ge: "sint ?a \<le> sint ?t - sint ?c"
        by (simp add: word_sless_alt need)
      have sum: "sint (?c + ?a) = sint ?c + sint ?a"
        using c0' a0 ge sint_int64_range [of ?t] by (intro sint_add_int64) simp_all
      have eqw: "?t - ?c = ?a \<longleftrightarrow> sint ?t - sint ?c = sint ?a"
        using need signed_word_eqI [of "?t - ?c" ?a] by auto
      from nk nr run obtain m1 where
        r: "restore_stock m ?pid ?a = Inr m1" and
        a: "apply_returns m1 returns its (consumed(?pid := ?c + ?a)) newItems
              = (m', Inr rebuilt)"
        by (auto split: sum.splits if_splits)
      have c': "\<forall>j. 0 \<le> sint ((consumed(?pid := ?c + ?a)) j)"
        using c0 a0 sum by simp
      have ci': "\<forall>j. (cint(?pid := cint ?pid + sint ?a)) j =
          sint ((consumed(?pid := ?c + ?a)) j)"
        using ci sum by simp
      from after [where cint' = "cint(?pid := cint ?pid + sint ?a)"
          and restored' = "restored(?pid := restored ?pid + sint ?a)", OF r a c' ci' refl]
        nkw ge T C
      show ?thesis
        by (simp add: q case_prod_beta fun_upd_def)
    qed
  qed
qed

text \<open>The walk keeps the line items it keeps in their stored order.\<close>

lemma subseq_spec_walk:
  "subseq (map fst (fst (spec_walk requested items consumed restored))) (map fst items)"
proof (induction items arbitrary: consumed restored)
  case Nil
  then show ?case by simp
next
  case (Cons x items)
  obtain pid available where x: "x = (pid, available)"
    by (cases x)
  have "subseq (map fst (fst (spec_walk requested items c r))) (pid # map fst items)" for c r
    using Cons.IH [of c r] by (rule list_emb_Cons)
  with Cons.IH show ?case
    by (simp add: x case_prod_beta)
qed

text \<open>The walk restores no negative number of units when the line items are positive.\<close>

lemma spec_walk_restored_mono:
  "list_all (\<lambda>x. 0 < snd x) items \<Longrightarrow>
     restored k \<le> snd (spec_walk requested items consumed restored) k"
proof (induction items arbitrary: consumed restored)
  case Nil
  then show ?case by simp
next
  case (Cons x items)
  obtain pid available where x: "x = (pid, available)"
    by (cases x)
  from Cons.prems x have a0: "0 < available" and rest: "list_all (\<lambda>x. 0 < snd x) items"
    by simp_all
  have step: "restored k \<le> snd (spec_walk requested items c (restored(pid := restored pid + n))) k"
    if "0 \<le> n" for c n
    using Cons.IH [OF rest, of "restored(pid := restored pid + n)" c] that
    by (cases "k = pid") (simp_all add: fun_upd_def)
  show ?case
    using Cons.IH [OF rest, of restored consumed] a0
    by (auto simp: x case_prod_beta intro!: step)
qed

lemma positive_quantities:
  "positive_lines items \<Longrightarrow> list_all (\<lambda>x. 0 < snd x) (quantities items)"
  by (simp add: positive_lines_def quantities_def list_all_iff word_sless_alt)

text \<open>What a successful \<^verbatim>\<open>PartialReturn\<close> has gone through.\<close>

lemma PartialReturn_success:
  assumes "keyed m" and "PartialReturn now m oid returns = (m', Inr updated)"
  shows "\<exists>ord m1 newItems. ordersByID m oid = Some ord \<and> Status ord = OrderStatusConfirmed \<and>
           \<not> invalid_items returns \<and>
           apply_returns m returns (Items ord) (\<lambda>_. 0) [] = (m1, Inr newItems) \<and>
           updated = ord\<lparr>Items := newItems, UpdatedAt := now\<rparr> \<and>
           productsByID m' = productsByID m1 \<and>
           ordersByID m' = (ordersByID m1)(oid \<mapsto> updated)"
proof -
  from assms(2) obtain ord where ord: "ordersByID m oid = Some ord"
    and st: "Status ord = OrderStatusConfirmed" and valid: "\<not> invalid_items returns"
    by (auto simp: PartialReturn_def MemoryOrders_GetByID_def
          split: if_splits option.splits)
  from assms(2) ord st obtain m1 newItems where
    ar: "apply_returns m returns (Items ord) (\<lambda>_. 0) [] = (m1, Inr newItems)" and
    up: "MemoryOrders_Update now m1 (ord\<lparr>Items := newItems\<rparr>) = Inr (m', updated)"
    by (auto simp: PartialReturn_def MemoryOrders_GetByID_def
          split: if_splits sum.splits prod.splits)
  from assms(1) ord have "Order.ID ord = oid"
    by (simp add: keyed_def)
  with up have "updated = ord\<lparr>Items := newItems, UpdatedAt := now\<rparr>"
    and "m' = m1\<lparr>ordersByID := (ordersByID m1)(oid \<mapsto> updated)\<rparr>"
    by (auto simp: MemoryOrders_Update_def Let_def split: option.splits)
  with ord st valid ar show ?thesis
    by simp
qed

text \<open>
  C4, as the specification states it: the rebuilt item list of every successful
  \<^verbatim>\<open>PartialReturn\<close> is that of the walk. The order of \<open>store_all_ordered\<close> holds one
  line of 9223372036854775807 units of product 1, the whole stock. The request of two
  entries of 9223372036854775807 units each passes the validation, entry by entry, and
  totals 18446744073709551614. The walk drops the line, the need exceeding its quantity,
  and restores its units. The code, whose 64-bit total has wrapped around to \<open>-2\<close>,
  keeps the line and restores nothing.
\<close>

theorem PartialReturn_total_wraps_around:
  "ordersByID store_all_ordered 1 =
     Some \<lparr>Order.ID = 1, CustomerName = ''Jane'', Items = [line 1 9223372036854775807],
           Status = OrderStatusConfirmed, CreatedAt = 7, UpdatedAt = 7\<rparr> \<and>
   stock_of store_all_ordered 1 = Some 0 \<and>
   spec_totalReturn [line 1 9223372036854775807, line 1 9223372036854775807] 1 =
     18446744073709551614 \<and>
   sint (totalReturn [line 1 9223372036854775807, line 1 9223372036854775807] 1) = - 2 \<and>
   fst (spec_walk
          (spec_totalReturn [line 1 9223372036854775807, line 1 9223372036854775807])
          (quantities [line 1 9223372036854775807]) (\<lambda>_. 0) (\<lambda>_. 0)) = [] \<and>
   snd (spec_walk
          (spec_totalReturn [line 1 9223372036854775807, line 1 9223372036854775807])
          (quantities [line 1 9223372036854775807]) (\<lambda>_. 0) (\<lambda>_. 0)) 1 =
     9223372036854775807 \<and>
   snd (PartialReturn 8 store_all_ordered 1
          [line 1 9223372036854775807, line 1 9223372036854775807]) =
     Inr \<lparr>Order.ID = 1, CustomerName = ''Jane'', Items = [line 1 9223372036854775807],
          Status = OrderStatusConfirmed, CreatedAt = 7, UpdatedAt = 8\<rparr> \<and>
   stock_of (fst (PartialReturn 8 store_all_ordered 1
          [line 1 9223372036854775807, line 1 9223372036854775807])) 1 = Some 0"
  by (simp add: model_defs store_all_ordered_def spec_totalReturn_def quantities_def)

text \<open>
  C4, for totals within 64 bits: let \<^verbatim>\<open>PartialReturn\<close> succeed on a store whose records
  sit under their identifiers, for an order whose line items are positive, with a
  request whose entries sum, product by product, to less than \<open>2\<^sup>6\<^sup>3\<close>. The item list
  of the returned order is that of the specified walk over the stored line items,
  started with all counters at zero and with the totals summed once per product over
  the request: an item is kept when its product's counter has reached the total; it is
  reduced by the need, and the need restored, when the need is below its quantity; it
  is dropped and its quantity restored when the need equals or exceeds its quantity,
  the counter advancing by that quantity only. No product appears or disappears, a
  product changes in its stock only, the units the walk restores to it being added in
  64 bits, and so its stock rises by those units wherever that sum is below \<open>2\<^sup>6\<^sup>3\<close>.
  The kept items follow the stored order; the order is otherwise as it was, but for its
  update time, so its status is still Confirmed, whatever is left of the list; and the
  returned order is the stored one.
\<close>

theorem PartialReturn_greedy_walk:
  assumes "keyed m" and "ordersByID m oid = Some ord" and "positive_lines (Items ord)"
    and "PartialReturn now m oid returnItems = (m', Inr updated)"
    and "\<forall>pid. spec_totalReturn returnItems pid < 9223372036854775808"
  shows "quantities (Items updated) =
           fst (spec_walk (spec_totalReturn returnItems) (quantities (Items ord))
                  (\<lambda>_. 0) (\<lambda>_. 0)) \<and>
         (\<forall>k. productsByID m k = None \<longrightarrow> productsByID m' k = None) \<and>
         (\<forall>k p. productsByID m k = Some p \<longrightarrow>
            (\<exists>p'. productsByID m' k = Some p' \<and>
               p' = p\<lparr>Stock := Stock p
                      + word_of_int
                          (snd (spec_walk (spec_totalReturn returnItems)
                                  (quantities (Items ord)) (\<lambda>_. 0) (\<lambda>_. 0)) k)\<rparr> \<and>
               (sint (Stock p)
                  + snd (spec_walk (spec_totalReturn returnItems) (quantities (Items ord))
                           (\<lambda>_. 0) (\<lambda>_. 0)) k < 9223372036854775808
                \<longrightarrow> sint (Stock p') =
                      sint (Stock p)
                      + snd (spec_walk (spec_totalReturn returnItems) (quantities (Items ord))
                               (\<lambda>_. 0) (\<lambda>_. 0)) k))) \<and>
         subseq (map ProductID (Items updated)) (map ProductID (Items ord)) \<and>
         updated = ord\<lparr>Items := Items updated, UpdatedAt := now\<rparr> \<and>
         Status updated = OrderStatusConfirmed \<and>
         ordersByID m' = (ordersByID m)(oid \<mapsto> updated)"
proof -
  let ?walk = "spec_walk (spec_totalReturn returnItems) (quantities (Items ord))
      (\<lambda>_. 0) (\<lambda>_. 0)"
  from PartialReturn_success [OF assms(1,4)] assms(2) obtain m1 newItems where
    st: "Status ord = OrderStatusConfirmed" and valid: "\<not> invalid_items returnItems" and
    ar: "apply_returns m returnItems (Items ord) (\<lambda>_. 0) [] = (m1, Inr newItems)" and
    upd: "updated = ord\<lparr>Items := newItems, UpdatedAt := now\<rparr>" and
    pm: "productsByID m' = productsByID m1" and
    om: "ordersByID m' = (ordersByID m1)(oid \<mapsto> updated)"
    by auto
  have rq: "\<forall>k. spec_totalReturn returnItems k = sint (totalReturn returnItems k)"
    using sint_totalReturn [OF valid] assms(5) by simp
  from apply_returns_spec_walk [OF assms(1,3) rq _ _ ar, of "\<lambda>_. 0" "\<lambda>_. 0"]
  have items: "quantities newItems = fst ?walk"
    and prods: "\<And>k. productsByID m1 k =
      map_option (\<lambda>p. p\<lparr>Stock := Stock p + word_of_int (snd ?walk k)\<rparr>) (productsByID m k)"
    and ords: "ordersByID m1 = ordersByID m"
    by (simp_all add: quantities_def)
  have absent: "\<forall>k. productsByID m k = None \<longrightarrow> productsByID m' k = None"
    by (simp add: pm prods)
  have present: "\<exists>p'. productsByID m' k = Some p' \<and>
      p' = p\<lparr>Stock := Stock p + word_of_int (snd ?walk k)\<rparr> \<and>
      (sint (Stock p) + snd ?walk k < 9223372036854775808
         \<longrightarrow> sint (Stock p') = sint (Stock p) + snd ?walk k)"
    if p: "productsByID m k = Some p" for k p
  proof -
    have "0 \<le> snd ?walk k"
      using spec_walk_restored_mono [OF positive_quantities [OF assms(3)],
          of "\<lambda>_. 0" k "spec_totalReturn returnItems" "\<lambda>_. 0"]
      by simp
    then have "sint (Stock p + word_of_int (snd ?walk k)) = sint (Stock p) + snd ?walk k"
      if "sint (Stock p) + snd ?walk k < 9223372036854775808"
      using that sint_int64_range(1) [of "Stock p"] by (intro sint_word_of_int64) simp_all
    with p show ?thesis
      by (simp add: pm prods)
  qed
  have "map ProductID newItems = map fst (quantities newItems)"
    by (simp add: quantities_def comp_def)
  moreover have "map ProductID (Items ord) = map fst (quantities (Items ord))"
    by (simp add: quantities_def comp_def)
  ultimately have sub: "subseq (map ProductID newItems) (map ProductID (Items ord))"
    using subseq_spec_walk [of "spec_totalReturn returnItems" "quantities (Items ord)"
        "\<lambda>_. 0" "\<lambda>_. 0"]
    by (simp add: items)
  from items absent present sub upd st om ords show ?thesis
    by simp
qed

text \<open>
  Carry-over across two lines of one product: the order of \<open>store_two_lines\<close> holds
  lines of 2 and 3 units of product 1. Returning 4 units drops the first line, which
  absorbs 2, and reduces the second to 1; the walk restores 4 units and the stock goes
  from 7 to 11.
\<close>

theorem PartialReturn_greedy_walk_witness:
  "snd (PartialReturn 8 store_two_lines 1 [line 1 4]) =
     Inr \<lparr>Order.ID = 1, CustomerName = ''Jane'', Items = [line 1 1],
          Status = OrderStatusConfirmed, CreatedAt = 7, UpdatedAt = 8\<rparr> \<and>
   spec_walk (spec_totalReturn [line 1 4]) [(1, 2), (1, 3)] (\<lambda>_. 0) (\<lambda>_. 0) =
     ([(1, 1)], (\<lambda>_. 0)(1 := 4)) \<and>
   map_option (\<lambda>p. sint (Stock p)) (productsByID store_two_lines 1) = Some 7 \<and>
   map_option (\<lambda>p. sint (Stock p))
     (productsByID (fst (PartialReturn 8 store_two_lines 1 [line 1 4])) 1) = Some 11"
proof -
  let ?ord = "\<lparr>Order.ID = 1, CustomerName = ''Jane'', Items = [line 1 2, line 1 3],
          Status = OrderStatusConfirmed, CreatedAt = 7, UpdatedAt = 7\<rparr>"
  let ?updated = "\<lparr>Order.ID = 1, CustomerName = ''Jane'', Items = [line 1 1],
          Status = OrderStatusConfirmed, CreatedAt = 7, UpdatedAt = 8\<rparr>"
  let ?p = "\<lparr>Product.ID = 1, Name = ''A'', SKU = ''SKU1'', Price = Finite 10, Stock = 7\<rparr>"
  have k: "keyed store_two_lines"
    by (simp add: store_two_lines_def keyed_run)
  have o: "ordersByID store_two_lines 1 = Some ?ord"
    by (simp add: model_defs store_two_lines_def)
  have pl: "positive_lines (Items ?ord)"
    by (simp add: positive_lines_def line_def word_sless_alt)
  have r: "snd (PartialReturn 8 store_two_lines 1 [line 1 4]) = Inr ?updated"
    by (simp add: model_defs store_two_lines_def)
  then have c: "PartialReturn 8 store_two_lines 1 [line 1 4] =
      (fst (PartialReturn 8 store_two_lines 1 [line 1 4]), Inr ?updated)"
    by (simp add: prod_eq_iff)
  have t: "\<forall>pid. spec_totalReturn [line 1 4] pid < 9223372036854775808"
    by (simp add: spec_totalReturn_def line_def)
  have w: "spec_walk (spec_totalReturn [line 1 4]) [(1, 2), (1, 3)] (\<lambda>_. 0) (\<lambda>_. 0) =
      ([(1, 1)], (\<lambda>_. 0)(1 := 4))"
    by (simp add: spec_totalReturn_def line_def)
  have w4: "snd (spec_walk (spec_totalReturn [line 1 4]) (quantities (Items ?ord))
      (\<lambda>_. 0) (\<lambda>_. 0)) 1 = 4"
    by (simp add: quantities_def spec_totalReturn_def line_def)
  have p: "productsByID store_two_lines 1 = Some ?p"
    by (simp add: model_defs store_two_lines_def)
  from PartialReturn_greedy_walk [OF k o pl c t] p
  obtain p' where
    "productsByID (fst (PartialReturn 8 store_two_lines 1 [line 1 4])) 1 = Some p'" and
    "sint (Stock ?p)
       + snd (spec_walk (spec_totalReturn [line 1 4]) (quantities (Items ?ord))
                (\<lambda>_. 0) (\<lambda>_. 0)) 1 < 9223372036854775808
     \<longrightarrow> sint (Stock p') =
           sint (Stock ?p)
           + snd (spec_walk (spec_totalReturn [line 1 4]) (quantities (Items ?ord))
                    (\<lambda>_. 0) (\<lambda>_. 0)) 1"
    by blast
  then have "map_option (\<lambda>p. sint (Stock p))
     (productsByID (fst (PartialReturn 8 store_two_lines 1 [line 1 4])) 1) = Some 11"
    unfolding w4 by simp
  with r w p show ?thesis
    by simp
qed

section \<open>CreateOrder on repeated products\<close>

text \<open>
  C1: the specification has the stock of a product go down, in a successful
  \<^verbatim>\<open>CreateOrder\<close>, by the sum of the quantities of all its line items. With stock 5 and
  the two lines (1, 2) and (1, 2) the call succeeds and the stock is 3, not 1: each line
  reads the stock from the store, and the second copy replaces the first in
  \<^verbatim>\<open>productCopies\<close>.
\<close>

theorem CreateOrder_duplicate_lines_decrement:
  "stock_of (store_A 5) 1 = Some 5 \<and>
   snd (CreateOrder 7 (store_A 5) ''John'' [line 1 2, line 1 2]) =
     Inr \<lparr>Order.ID = 1, CustomerName = ''John'', Items = [line 1 2, line 1 2],
          Status = OrderStatusConfirmed, CreatedAt = 7, UpdatedAt = 7\<rparr> \<and>
   stock_of (fst (CreateOrder 7 (store_A 5) ''John'' [line 1 2, line 1 2])) 1 = Some 3"
  by (simp add: model_defs)

text \<open>
  C2: the specification has \<^verbatim>\<open>CreateOrder\<close> fail with \<^verbatim>\<open>ErrNotEnoughStock\<close>, and
  write nothing, when the stock is below the demand summed over the lines of a
  product. With stock 3 and the lines (1, 2) and (1, 2), a
  demand of 4, the call succeeds, stores the order and leaves a stock of 1: the stock
  is checked against each line on its own.
\<close>

theorem CreateOrder_accepts_aggregate_shortfall:
  "stock_of (store_A 3) 1 = Some 3 \<and>
   snd (CreateOrder 7 (store_A 3) ''John'' [line 1 2, line 1 2]) =
     Inr \<lparr>Order.ID = 1, CustomerName = ''John'', Items = [line 1 2, line 1 2],
          Status = OrderStatusConfirmed, CreatedAt = 7, UpdatedAt = 7\<rparr> \<and>
   stock_of (fst (CreateOrder 7 (store_A 3) ''John'' [line 1 2, line 1 2])) 1 = Some 1"
  by (simp add: model_defs)

text \<open>
  C6: the specification has \<^verbatim>\<open>CreateOrder\<close> followed by \<^verbatim>\<open>CancelOrder\<close> give every
  product its stock back. With stock 5 and the lines (1, 2) and (1, 2) the order is
  created, then cancelled, and the stock ends at 7: creation took 2, cancellation gave
  back 2 for each line.
\<close>

theorem CreateOrder_CancelOrder_duplicate_lines:
  "stock_of (store_A 5) 1 = Some 5 \<and>
   snd (CancelOrder 8 (fst (CreateOrder 7 (store_A 5) ''John'' [line 1 2, line 1 2])) 1) =
     Inr \<lparr>Order.ID = 1, CustomerName = ''John'', Items = [line 1 2, line 1 2],
          Status = OrderStatusCancelled, CreatedAt = 7, UpdatedAt = 8\<rparr> \<and>
   stock_of (fst (CancelOrder 8
      (fst (CreateOrder 7 (store_A 5) ''John'' [line 1 2, line 1 2])) 1)) 1 = Some 7"
  by (simp add: model_defs)

section \<open>PartialReturn on repeated entries of the request\<close>

text \<open>
  C3: the specification has \<^verbatim>\<open>PartialReturn\<close> fail with \<^verbatim>\<open>ErrInvalidInput\<close>, and
  write nothing, when the entries of the request for one product sum to more than the
  order holds. An order holding 3 units of product 1 and
  the request (1, 2), (1, 2), which asks for 4, is accepted: each entry alone is within
  the 3 held. The order is left without items and 3 units go back to stock.
\<close>

theorem PartialReturn_accepts_split_excess:
  "ordersByID (run [ProductCreate (product_A 5), OrderCreate 7 ''Jane'' [line 1 3]]) 1 =
     Some \<lparr>Order.ID = 1, CustomerName = ''Jane'', Items = [line 1 3],
           Status = OrderStatusConfirmed, CreatedAt = 7, UpdatedAt = 7\<rparr> \<and>
   stock_of (run [ProductCreate (product_A 5), OrderCreate 7 ''Jane'' [line 1 3]]) 1 = Some 2 \<and>
   snd (PartialReturn 8 (run [ProductCreate (product_A 5), OrderCreate 7 ''Jane'' [line 1 3]]) 1
          [line 1 2, line 1 2]) =
     Inr \<lparr>Order.ID = 1, CustomerName = ''Jane'', Items = [],
          Status = OrderStatusConfirmed, CreatedAt = 7, UpdatedAt = 8\<rparr> \<and>
   stock_of (fst (PartialReturn 8
      (run [ProductCreate (product_A 5), OrderCreate 7 ''Jane'' [line 1 3]]) 1
      [line 1 2, line 1 2])) 1 = Some 5"
  by (simp add: model_defs)

text \<open>
  C5: the specification has a successful \<^verbatim>\<open>PartialReturn\<close> raise the stock of a
  product by the total requested for it, and lower what the order holds by as much.
  On the order of \<open>store_confirmed\<close>, which holds 2 units of product 1,
  the request (1, 2), (1, 1) asks for 3 and succeeds; the stock goes from 8 to 10, by
  the 2 units held, and the order keeps no item.
\<close>

theorem PartialReturn_restores_less_than_requested:
  "spec_totalReturn [line 1 2, line 1 1] 1 = 3 \<and>
   stock_of store_confirmed 1 = Some 8 \<and>
   snd (PartialReturn 8 store_confirmed 1 [line 1 2, line 1 1]) =
     Inr \<lparr>Order.ID = 1, CustomerName = ''Jane'', Items = [],
          Status = OrderStatusConfirmed, CreatedAt = 7, UpdatedAt = 8\<rparr> \<and>
   stock_of (fst (PartialReturn 8 store_confirmed 1 [line 1 2, line 1 1])) 1 = Some 10"
  by (simp add: model_defs store_confirmed_def spec_totalReturn_def)

section \<open>The product counter stays above the identifiers in use\<close>

lemma products_frame_refl: "products_frame m m"
  by (simp add: products_frame_def)

lemma products_frame_trans:
  "products_frame m m1 \<Longrightarrow> products_frame m1 m2 \<Longrightarrow> products_frame m m2"
  by (simp add: products_frame_def)

lemma frame_MemoryStore_Update: "MemoryStore_Update m p = Inr m' \<Longrightarrow> products_frame m m'"
  by (auto simp: MemoryStore_Update_def products_frame_def split: option.splits)

lemma frame_MemoryStore_Delete: "MemoryStore_Delete m pid = Inr m' \<Longrightarrow> products_frame m m'"
  by (auto simp: MemoryStore_Delete_def products_frame_def split: option.splits)

lemma frame_restore_stock: "restore_stock m pid n = Inr m' \<Longrightarrow> products_frame m m'"
  by (auto simp: restore_stock_def split: sum.splits dest: frame_MemoryStore_Update)

lemma frame_MemoryOrders_Create: "products_frame m (fst (MemoryOrders_Create now m ord))"
  by (simp add: MemoryOrders_Create_def Let_def products_frame_def)

lemma frame_MemoryOrders_Update:
  "MemoryOrders_Update now m ord = Inr (m', ord') \<Longrightarrow> products_frame m m'"
  by (auto simp: MemoryOrders_Update_def Let_def products_frame_def split: option.splits)

lemma frame_persist: "products_frame m (fst (persist m ps))"
proof (induction m ps rule: persist.induct)
  case (1 m)
  show ?case by (simp add: products_frame_refl)
next
  case (2 m k p ps)
  then show ?case
    by (cases "MemoryStore_Update m p")
      (auto simp: products_frame_refl dest: frame_MemoryStore_Update products_frame_trans)
qed

lemma frame_return_stock: "products_frame m (fst (return_stock m its))"
proof (induction its arbitrary: m)
  case Nil
  show ?case by (simp add: products_frame_refl)
next
  case (Cons it its)
  have step: "products_frame m (fst (return_stock m1 its))"
    if "restore_stock m (ProductID it) n = Inr m1" for m1 n
    using frame_restore_stock [OF that] Cons.IH [of m1] by (rule products_frame_trans)
  show ?case
    by (auto simp: products_frame_refl step split: sum.splits)
qed

lemma frame_apply_returns:
  "products_frame m (fst (apply_returns m returns its consumed newItems))"
proof (induction its arbitrary: m consumed newItems)
  case Nil
  show ?case by (simp add: products_frame_refl)
next
  case (Cons it its)
  have step: "products_frame m (fst (apply_returns m1 returns its c ns))"
    if "restore_stock m (ProductID it) n = Inr m1" for m1 n c ns
    using frame_restore_stock [OF that] Cons.IH [of m1 c ns] by (rule products_frame_trans)
  show ?case
    using Cons.IH [of m consumed "newItems @ [it]"]
    by (auto simp: products_frame_refl step split: sum.splits)
qed

lemma frame_CreateOrder: "products_frame m (fst (CreateOrder now m customer items))"
proof -
  have "products_frame m (fst (MemoryOrders_Create now (fst (persist m ps)) ord))" for ps ord
    using frame_persist frame_MemoryOrders_Create by (rule products_frame_trans)
  moreover have "products_frame m (fst (persist m ps))" for ps
    by (rule frame_persist)
  ultimately show ?thesis
    apply (auto simp: CreateOrder_def products_frame_refl split: sum.splits prod.splits)
     apply (metis fst_conv)+
    done
qed

lemma frame_CancelOrder: "products_frame m (fst (CancelOrder now m oid))"
proof -
  have "products_frame m m2"
    if "MemoryOrders_Update now (fst (return_stock m its)) ord = Inr (m2, ord')" for its ord m2 ord'
    using frame_return_stock frame_MemoryOrders_Update [OF that] by (rule products_frame_trans)
  moreover have "products_frame m (fst (return_stock m its))" for its
    by (rule frame_return_stock)
  ultimately show ?thesis
    apply (auto simp: CancelOrder_def products_frame_refl split: sum.splits prod.splits)
      apply (metis fst_conv)+
    done
qed

lemma frame_PartialReturn: "products_frame m (fst (PartialReturn now m oid returns))"
proof -
  have "products_frame m m2"
    if "MemoryOrders_Update now (fst (apply_returns m returns its c ns)) ord = Inr (m2, ord')"
    for its c ns ord m2 ord'
    using frame_apply_returns frame_MemoryOrders_Update [OF that] by (rule products_frame_trans)
  moreover have "products_frame m (fst (apply_returns m returns its c ns))" for its c ns
    by (rule frame_apply_returns)
  ultimately show ?thesis
    apply (auto simp: PartialReturn_def products_frame_refl split: sum.splits prod.splits)
      apply (metis fst_conv)+
    done
qed

lemma ids_below_counter_frame:
  assumes "ids_below_counter m" and "products_frame m m'"
  shows "ids_below_counter m'"
proof -
  have "k <s nextProdID m'" if "productsByID m' k = Some p" for k p
  proof -
    from that assms(2) have "productsByID m k \<noteq> None"
      by (auto simp: products_frame_def)
    with assms show ?thesis
      by (auto simp: ids_below_counter_def products_frame_def)
  qed
  with assms show ?thesis
    by (simp add: ids_below_counter_def products_frame_def)
qed

lemma ids_below_counter_ProductService_Create:
  assumes "ids_below_counter m" and "sint (nextProdID m) < 9223372036854775807"
  shows "ids_below_counter (fst (ProductService_Create m p)) \<and>
         sint (nextProdID (fst (ProductService_Create m p))) \<le> sint (nextProdID m) + 1"
proof -
  from assms(1) have pos: "0 < sint (nextProdID m)"
    by (simp add: ids_below_counter_def word_sless_alt)
  with assms(2) have succ: "sint (nextProdID m + 1) = sint (nextProdID m) + 1"
    using sint_add_int64 [of "nextProdID m" 1] by simp
  show ?thesis
    using assms(1) pos succ
    by (auto simp: ProductService_Create_def MemoryStore_Create_def Let_def
          ids_below_counter_def word_sless_alt)
qed

lemma frame_perform:
  "(\<And>p. op \<noteq> ProductCreate p) \<Longrightarrow> products_frame m (perform m op)"
  by (cases op)
    (auto simp: ProductService_Update_def ProductService_Delete_def products_frame_refl
       frame_CreateOrder frame_CancelOrder frame_PartialReturn
       split: sum.splits dest: frame_MemoryStore_Update frame_MemoryStore_Delete)

lemma ids_below_counter_perform:
  assumes "ids_below_counter m" and "sint (nextProdID m) < 9223372036854775807"
  shows "ids_below_counter (perform m op) \<and> sint (nextProdID (perform m op)) \<le> sint (nextProdID m) + 1"
proof (cases "\<exists>p. op = ProductCreate p")
  case True
  with ids_below_counter_ProductService_Create [OF assms] show ?thesis
    by auto
next
  case False
  then have f: "products_frame m (perform m op)"
    by (simp add: frame_perform)
  with assms(1) have "ids_below_counter (perform m op)"
    by (rule ids_below_counter_frame)
  with f show ?thesis
    by (simp add: products_frame_def)
qed

lemma ids_below_counter_run_aux:
  "int (length ops) < 9223372036854775806 \<Longrightarrow>
     ids_below_counter (run ops) \<and> sint (nextProdID (run ops)) \<le> 1 + int (length ops)"
proof (induction ops rule: rev_induct)
  case Nil
  show ?case
    by (simp add: run_def NewMemoryStore_def ids_below_counter_def word_sless_alt)
next
  case (snoc op ops)
  then have ih: "ids_below_counter (run ops)" "sint (nextProdID (run ops)) \<le> 1 + int (length ops)"
    by simp_all
  with snoc.prems have "sint (nextProdID (run ops)) < 9223372036854775807"
    by simp
  from ids_below_counter_perform [OF ih(1) this, of op] ih(2) show ?case
    by (simp add: run_snoc)
qed

lemma ids_below_counter_run:
  "int (length ops) < 9223372036854775806 \<Longrightarrow> ids_below_counter (run ops)"
  by (simp add: ids_below_counter_run_aux)

section \<open>Creating products\<close>

text \<open>
  C10: \<^verbatim>\<open>ProductService.Create\<close> fails with \<^verbatim>\<open>ErrInvalidInput\<close> and returns the
  store as it was when the name is empty, the SKU is empty, the price is below zero or
  the stock is below zero. Otherwise it succeeds on every store: the product is stored,
  as given but for its identifier, under the value of the product counter, the counter
  goes up by one, and nothing else changes. On every store reached from
  \<^verbatim>\<open>NewMemoryStore()\<close> by fewer than \<open>2\<^sup>6\<^sup>3 - 2\<close> calls, the identifier assigned is positive
  and was not in use, and every other product is left as it was.
\<close>

theorem ProductService_Create_validation:
  "(Name p = [] \<or> SKU p = [] \<or> float64_lt_zero (Price p) \<or> Stock p <s 0
      \<longrightarrow> ProductService_Create m p = (m, Inl ErrInvalidInput)) \<and>
   (\<not> (Name p = [] \<or> SKU p = [] \<or> float64_lt_zero (Price p) \<or> Stock p <s 0)
      \<longrightarrow> ProductService_Create m p =
            (m\<lparr>nextProdID := nextProdID m + 1,
               productsByID :=
                 (productsByID m)(nextProdID m \<mapsto> p\<lparr>Product.ID := nextProdID m\<rparr>)\<rparr>,
             Inr (p\<lparr>Product.ID := nextProdID m\<rparr>))) \<and>
   (\<not> (Name p = [] \<or> SKU p = [] \<or> float64_lt_zero (Price p) \<or> Stock p <s 0) \<and>
    int (length ops) < 9223372036854775806
      \<longrightarrow> (\<exists>m' cp. ProductService_Create (run ops) p = (m', Inr cp) \<and>
            cp = p\<lparr>Product.ID := Product.ID cp\<rparr> \<and>
            0 <s Product.ID cp \<and>
            productsByID (run ops) (Product.ID cp) = None \<and>
            productsByID m' (Product.ID cp) = Some cp \<and>
            (\<forall>k. k \<noteq> Product.ID cp \<longrightarrow> productsByID m' k = productsByID (run ops) k) \<and>
            ids_below_counter m'))"
proof (intro conjI impI)
  assume "Name p = [] \<or> SKU p = [] \<or> float64_lt_zero (Price p) \<or> Stock p <s 0"
  then show "ProductService_Create m p = (m, Inl ErrInvalidInput)"
    by (simp add: ProductService_Create_def)
next
  assume "\<not> (Name p = [] \<or> SKU p = [] \<or> float64_lt_zero (Price p) \<or> Stock p <s 0)"
  then show "ProductService_Create m p =
      (m\<lparr>nextProdID := nextProdID m + 1,
         productsByID := (productsByID m)(nextProdID m \<mapsto> p\<lparr>Product.ID := nextProdID m\<rparr>)\<rparr>,
       Inr (p\<lparr>Product.ID := nextProdID m\<rparr>))"
    by (simp add: ProductService_Create_def MemoryStore_Create_def Let_def)
next
  let ?m = "run ops"
  assume a: "\<not> (Name p = [] \<or> SKU p = [] \<or> float64_lt_zero (Price p) \<or> Stock p <s 0) \<and>
    int (length ops) < 9223372036854775806"
  then have inv: "ids_below_counter ?m"
    and bound: "sint (nextProdID ?m) < 9223372036854775807"
    using ids_below_counter_run_aux [of ops] by simp_all
  have fresh: "productsByID ?m (nextProdID ?m) = None"
  proof (cases "productsByID ?m (nextProdID ?m)")
    case None
    then show ?thesis .
  next
    case (Some q)
    with inv have "nextProdID ?m <s nextProdID ?m"
      unfolding ids_below_counter_def by blast
    then show ?thesis by simp
  qed
  from a have eq: "ProductService_Create ?m p =
      (?m\<lparr>nextProdID := nextProdID ?m + 1,
          productsByID := (productsByID ?m)(nextProdID ?m \<mapsto> p\<lparr>Product.ID := nextProdID ?m\<rparr>)\<rparr>,
       Inr (p\<lparr>Product.ID := nextProdID ?m\<rparr>))"
    by (simp add: ProductService_Create_def MemoryStore_Create_def Let_def)
  from ids_below_counter_ProductService_Create [OF inv bound, of p] eq
  have inv': "ids_below_counter
      (?m\<lparr>nextProdID := nextProdID ?m + 1,
          productsByID := (productsByID ?m)(nextProdID ?m \<mapsto> p\<lparr>Product.ID := nextProdID ?m\<rparr>)\<rparr>)"
    by simp
  from inv have pos: "0 <s nextProdID ?m"
    by (simp add: ids_below_counter_def)
  show "\<exists>m' cp. ProductService_Create ?m p = (m', Inr cp) \<and>
            cp = p\<lparr>Product.ID := Product.ID cp\<rparr> \<and>
            0 <s Product.ID cp \<and>
            productsByID ?m (Product.ID cp) = None \<and>
            productsByID m' (Product.ID cp) = Some cp \<and>
            (\<forall>k. k \<noteq> Product.ID cp \<longrightarrow> productsByID m' k = productsByID ?m k) \<and>
            ids_below_counter m'"
    using eq fresh pos inv' by simp
qed

text \<open>
  The four rejected requests of \<^verbatim>\<open>TestProduct_Create_Invalid\<close> and an accepted one,
  on the store that already holds products 1 and 2: the new product gets identifier 3,
  which was not in use, the counter goes from 3 to 4, and product 2 is as it was.
\<close>

theorem ProductService_Create_validation_witness:
  "ProductService_Create (store_AB 5 2) ((product_A 1)\<lparr>Name := []\<rparr>)
     = (store_AB 5 2, Inl ErrInvalidInput) \<and>
   ProductService_Create (store_AB 5 2) ((product_A 1)\<lparr>SKU := []\<rparr>)
     = (store_AB 5 2, Inl ErrInvalidInput) \<and>
   ProductService_Create (store_AB 5 2) ((product_A 1)\<lparr>Price := Finite (- 1)\<rparr>)
     = (store_AB 5 2, Inl ErrInvalidInput) \<and>
   ProductService_Create (store_AB 5 2) (product_A (- 1)) = (store_AB 5 2, Inl ErrInvalidInput) \<and>
   snd (ProductService_Create (store_AB 5 2) (product_A 1))
     = Inr ((product_A 1)\<lparr>Product.ID := 3\<rparr>) \<and>
   nextProdID (store_AB 5 2) = 3 \<and>
   nextProdID (fst (ProductService_Create (store_AB 5 2) (product_A 1))) = 4 \<and>
   productsByID (store_AB 5 2) 3 = None \<and>
   productsByID (fst (ProductService_Create (store_AB 5 2) (product_A 1))) 3
     = Some ((product_A 1)\<lparr>Product.ID := 3\<rparr>) \<and>
   productsByID (fst (ProductService_Create (store_AB 5 2) (product_A 1))) 2
     = Some ((product_B 2)\<lparr>Product.ID := 2\<rparr>)"
proof -
  let ?ops = "[ProductCreate (product_A 5), ProductCreate (product_B 2)]"
  have s: "store_AB 5 2 = run ?ops"
    by (simp add: store_AB_def)
  have n: "nextProdID (store_AB 5 2) = 3"
    by (simp add: model_defs product_B_def store_AB_def)
  have b: "productsByID (store_AB 5 2) 2 = Some ((product_B 2)\<lparr>Product.ID := 2\<rparr>)"
    by (simp add: model_defs product_B_def store_AB_def)
  have i1: "Name ((product_A 1)\<lparr>Name := []\<rparr>) = []"
    by simp
  have i2: "SKU ((product_A 1)\<lparr>SKU := []\<rparr>) = []"
    by simp
  have i3: "float64_lt_zero (Price ((product_A 1)\<lparr>Price := Finite (- 1)\<rparr>))"
    by simp
  have i4: "Stock (product_A (- 1)) <s 0"
    by (simp add: product_A_def word_sless_alt)
  have v: "\<not> (Name (product_A 1) = [] \<or> SKU (product_A 1) = [] \<or>
      float64_lt_zero (Price (product_A 1)) \<or> Stock (product_A 1) <s 0)"
    by (simp add: product_A_def word_sless_alt)
  have l: "int (length ?ops) < 9223372036854775806"
    by simp
  from ProductService_Create_validation [of "(product_A 1)\<lparr>Name := []\<rparr>" "store_AB 5 2"] i1
  have r1: "ProductService_Create (store_AB 5 2) ((product_A 1)\<lparr>Name := []\<rparr>)
      = (store_AB 5 2, Inl ErrInvalidInput)"
    by blast
  from ProductService_Create_validation [of "(product_A 1)\<lparr>SKU := []\<rparr>" "store_AB 5 2"] i2
  have r2: "ProductService_Create (store_AB 5 2) ((product_A 1)\<lparr>SKU := []\<rparr>)
      = (store_AB 5 2, Inl ErrInvalidInput)"
    by blast
  from ProductService_Create_validation [of "(product_A 1)\<lparr>Price := Finite (- 1)\<rparr>" "store_AB 5 2"] i3
  have r3: "ProductService_Create (store_AB 5 2) ((product_A 1)\<lparr>Price := Finite (- 1)\<rparr>)
      = (store_AB 5 2, Inl ErrInvalidInput)"
    by blast
  from ProductService_Create_validation [of "product_A (- 1)" "store_AB 5 2"] i4
  have r4: "ProductService_Create (store_AB 5 2) (product_A (- 1))
      = (store_AB 5 2, Inl ErrInvalidInput)"
    by blast
  from ProductService_Create_validation [of "product_A 1" "store_AB 5 2" ?ops] v l
  have eq: "ProductService_Create (store_AB 5 2) (product_A 1) =
        ((store_AB 5 2)\<lparr>nextProdID := nextProdID (store_AB 5 2) + 1,
           productsByID := (productsByID (store_AB 5 2))
             (nextProdID (store_AB 5 2) \<mapsto>
                (product_A 1)\<lparr>Product.ID := nextProdID (store_AB 5 2)\<rparr>)\<rparr>,
         Inr ((product_A 1)\<lparr>Product.ID := nextProdID (store_AB 5 2)\<rparr>))"
    and "\<exists>m' cp. ProductService_Create (run ?ops) (product_A 1) = (m', Inr cp) \<and>
            cp = (product_A 1)\<lparr>Product.ID := Product.ID cp\<rparr> \<and>
            0 <s Product.ID cp \<and>
            productsByID (run ?ops) (Product.ID cp) = None \<and>
            productsByID m' (Product.ID cp) = Some cp \<and>
            (\<forall>k. k \<noteq> Product.ID cp \<longrightarrow> productsByID m' k = productsByID (run ?ops) k) \<and>
            ids_below_counter m'"
    by blast+
  then have r5: "snd (ProductService_Create (store_AB 5 2) (product_A 1))
        = Inr ((product_A 1)\<lparr>Product.ID := 3\<rparr>) \<and>
      nextProdID (fst (ProductService_Create (store_AB 5 2) (product_A 1))) = 4 \<and>
      productsByID (store_AB 5 2) 3 = None \<and>
      productsByID (fst (ProductService_Create (store_AB 5 2) (product_A 1))) 3
        = Some ((product_A 1)\<lparr>Product.ID := 3\<rparr>) \<and>
      productsByID (fst (ProductService_Create (store_AB 5 2) (product_A 1))) 2
        = Some ((product_B 2)\<lparr>Product.ID := 2\<rparr>)"
    using n b by (auto simp: s [symmetric])
  from r1 r2 r3 r4 r5 n show ?thesis
    by blast
qed

section \<open>Stock stays non-negative while no restoration wraps around\<close>

text \<open>
  \<^verbatim>\<open>CreateOrder\<close> and the product calls never write a negative stock. \<^verbatim>\<open>CancelOrder\<close>
  and \<^verbatim>\<open>PartialReturn\<close> add positive quantities to the stock, so they keep every stock
  non-negative as long as none of their additions wraps around.
\<close>

lemma restore_step:
  assumes nn: "stock_nonneg m" and n0: "0 < sint n" and f: "restore_fits m pid n"
    and rs: "restore_stock m pid n = Inr m1"
  shows "stock_nonneg m1"
proof -
  from rs obtain p where p: "productsByID m pid = Some p"
    and m1: "productsByID m1 = (productsByID m)(Product.ID p \<mapsto> p\<lparr>Stock := Stock p + n\<rparr>)"
    by (auto simp: restore_stock_def MemoryStore_GetByID_def MemoryStore_Update_def
          split: option.splits)
  from nn p have "0 \<le> sint (Stock p)"
    by (simp add: stock_nonneg_def word_sle_eq)
  moreover from f p have "sint (Stock p + n) = sint (Stock p) + sint n"
    by (simp add: restore_fits_def)
  ultimately have "0 \<le>s Stock p + n"
    using n0 by (simp add: word_sle_eq)
  with nn show ?thesis
    by (auto simp: stock_nonneg_def m1)
qed

text \<open>
  Conversely, a restoration of a positive quantity that does not fit writes a negative
  stock: the proviso below leaves out only calls that write one.
\<close>

lemma restore_wraps_negative:
  assumes k: "keyed m" and nn: "stock_nonneg m" and n0: "0 < sint n"
    and f: "\<not> restore_fits m pid n" and rs: "restore_stock m pid n = Inr m1"
  shows "\<not> stock_nonneg m1"
proof -
  from rs k obtain p where p: "productsByID m pid = Some p"
    and m1: "productsByID m1 = (productsByID m)(pid \<mapsto> p\<lparr>Stock := Stock p + n\<rparr>)"
    by (auto simp: restore_stock_def MemoryStore_GetByID_def MemoryStore_Update_def keyed_def
          split: option.splits)
  from nn p have "0 \<le> sint (Stock p)"
    by (simp add: stock_nonneg_def word_sle_eq)
  moreover from f p have "sint (Stock p + n) \<noteq> sint (Stock p) + sint n"
    by (simp add: restore_fits_def)
  ultimately have "sint (Stock p + n) < 0"
    using n0 by (intro sint_add_wraps)
  then have "\<not> 0 \<le>s Stock p + n"
    by (simp add: word_sle_eq)
  with m1 show ?thesis
    by (auto simp: stock_nonneg_def)
qed

lemma stock_nonneg_return_stock:
  "stock_nonneg m \<Longrightarrow> positive_lines its \<Longrightarrow> return_stock_fits m its \<Longrightarrow>
     stock_nonneg (fst (return_stock m its))"
proof (induction its arbitrary: m)
  case Nil
  then show ?case by simp
next
  case (Cons it its)
  from Cons.prems(2) have q: "0 < sint (Quantity it)" and pl: "positive_lines its"
    by (simp_all add: positive_lines_def word_sless_alt)
  show ?case
  proof (cases "restore_stock m (ProductID it) (Quantity it)")
    case (Inl e)
    with Cons.prems(1) show ?thesis by simp
  next
    case (Inr m1)
    with Cons.prems(3) have f: "restore_fits m (ProductID it) (Quantity it)"
      and rest: "return_stock_fits m1 its"
      by simp_all
    from restore_step [OF Cons.prems(1) q f Inr] have "stock_nonneg m1" .
    with Cons.IH [of m1] pl rest Inr show ?thesis by simp
  qed
qed

text \<open>
  A round of the loop that does not keep its line item fits when the one addition it
  performs fits and the rounds after it do.
\<close>

lemma apply_returns_fits_step:
  assumes nk: "\<not> totalReturn returns (ProductID it) \<le>s consumed (ProductID it)"
    and n: "n = (if totalReturn returns (ProductID it) - consumed (ProductID it) <s Quantity it
                 then totalReturn returns (ProductID it) - consumed (ProductID it)
                 else Quantity it)"
  shows "apply_returns_fits m returns (it # its) consumed =
           (restore_fits m (ProductID it) n \<and>
            (case restore_stock m (ProductID it) n of
               Inl e \<Rightarrow> True
             | Inr m' \<Rightarrow>
                 apply_returns_fits m' returns its
                   (consumed(ProductID it := consumed (ProductID it) + n))))"
proof (cases "totalReturn returns (ProductID it) - consumed (ProductID it) <s Quantity it")
  case True
  with n have "n = totalReturn returns (ProductID it) - consumed (ProductID it)"
    by simp
  with nk True show ?thesis
    by (simp cong: sum.case_cong)
next
  case nr: False
  with n have n': "n = Quantity it"
    by simp
  show ?thesis
  proof (cases "totalReturn returns (ProductID it) - consumed (ProductID it) = Quantity it")
    case True
    with nk nr n' show ?thesis
      by (simp cong: sum.case_cong)
  next
    case False
    with nk nr n' show ?thesis
      by (simp cong: sum.case_cong)
  qed
qed

lemma stock_nonneg_apply_returns:
  "stock_nonneg m \<Longrightarrow> positive_lines its \<Longrightarrow> \<forall>k. 0 \<le> sint (consumed k) \<Longrightarrow>
   apply_returns_fits m returns its consumed \<Longrightarrow>
     stock_nonneg (fst (apply_returns m returns its consumed newItems))"
proof (induction its arbitrary: m consumed newItems)
  case Nil
  then show ?case by simp
next
  case (Cons it its)
  let ?pid = "ProductID it"
  let ?t = "totalReturn returns ?pid"
  let ?c = "consumed ?pid"
  let ?n = "if ?t - ?c <s Quantity it then ?t - ?c else Quantity it"
  from Cons.prems(2) have a0: "0 < sint (Quantity it)" and pl: "positive_lines its"
    by (simp_all add: positive_lines_def word_sless_alt)
  show ?case
  proof (cases "?t \<le>s ?c")
    case True
    with Cons.prems(4) have "apply_returns_fits m returns its consumed"
      by simp
    from Cons.IH [OF Cons.prems(1) pl Cons.prems(3) this, of "newItems @ [it]"] True
    show ?thesis by simp
  next
    case False
    from apply_returns_step [OF Cons.prems(3) a0 False refl, of m its newItems]
    obtain kept where n0: "0 < sint ?n"
      and c': "\<forall>k. 0 \<le> sint ((consumed(?pid := ?c + ?n)) k)"
      and eq: "apply_returns m returns (it # its) consumed newItems =
        (case restore_stock m ?pid ?n of
           Inl e \<Rightarrow> (m, Inl e)
         | Inr m' \<Rightarrow>
             apply_returns m' returns its (consumed(?pid := ?c + ?n)) (newItems @ kept))"
      by blast
    from apply_returns_fits_step [where consumed = consumed and it = it and returns = returns
        and m = m and its = its, OF False refl] Cons.prems(4)
    have f: "restore_fits m ?pid ?n"
      and rest: "case restore_stock m ?pid ?n of
          Inl e \<Rightarrow> True
        | Inr m' \<Rightarrow> apply_returns_fits m' returns its (consumed(?pid := ?c + ?n))"
      by simp_all
    show ?thesis
    proof (cases "restore_stock m ?pid ?n")
      case (Inl e)
      with eq Cons.prems(1) show ?thesis by simp
    next
      case (Inr m1)
      with rest have rest1: "apply_returns_fits m1 returns its (consumed(?pid := ?c + ?n))"
        by simp
      from restore_step [OF Cons.prems(1) n0 f Inr] have "stock_nonneg m1" .
      from Cons.IH [where consumed = "consumed(?pid := ?c + ?n)" and m = m1
          and newItems = "newItems @ kept", OF this pl c' rest1]
      show ?thesis
        by (simp only: eq Inr sum.case)
    qed
  qed
qed

lemma list_all_update:
  "P (k, v) \<Longrightarrow> list_all P al \<Longrightarrow> list_all P (AList.update k v al)"
  by (induction al) auto

lemma reserve_nonneg:
  "stock_nonneg m \<Longrightarrow> positive_lines items \<Longrightarrow> list_all (\<lambda>(k, p). 0 \<le>s Stock p) pc \<Longrightarrow>
     reserve m items pc = Inr pc' \<Longrightarrow> list_all (\<lambda>(k, p). 0 \<le>s Stock p) pc'"
proof (induction items arbitrary: pc)
  case Nil
  then show ?case by simp
next
  case (Cons it items)
  from Cons.prems(2) have q: "0 < sint (Quantity it)" and pl: "positive_lines items"
    by (simp_all add: positive_lines_def word_sless_alt)
  from Cons.prems(4) obtain p where p: "productsByID m (ProductID it) = Some p"
    and enough: "\<not> Stock p <s Quantity it"
    and rest: "reserve m items
        (AList.update (Product.ID p) (p\<lparr>Stock := Stock p - Quantity it\<rparr>) pc) = Inr pc'"
    by (auto simp: MemoryStore_GetByID_def split: option.splits if_splits)
  from enough have le: "sint (Quantity it) \<le> sint (Stock p)"
    by (simp add: word_sless_alt)
  with q have "sint (Stock p - Quantity it) = sint (Stock p) - sint (Quantity it)"
    using sint_int64_range [of "Stock p"] by (intro sint_diff_int64) simp_all
  with le have "0 \<le>s Stock p - Quantity it"
    by (simp add: word_sle_eq)
  with Cons.prems(3)
  have "list_all (\<lambda>(k, p). 0 \<le>s Stock p)
      (AList.update (Product.ID p) (p\<lparr>Stock := Stock p - Quantity it\<rparr>) pc)"
    by (intro list_all_update) simp_all
  from Cons.IH [OF Cons.prems(1) pl this rest] show ?case .
qed

lemma stock_nonneg_MemoryStore_Update:
  "stock_nonneg m \<Longrightarrow> 0 \<le>s Stock p \<Longrightarrow> MemoryStore_Update m p = Inr m' \<Longrightarrow> stock_nonneg m'"
  by (auto simp: stock_nonneg_def MemoryStore_Update_def split: option.splits if_splits)

lemma stock_nonneg_persist:
  "stock_nonneg m \<Longrightarrow> list_all (\<lambda>(k, p). 0 \<le>s Stock p) ps \<Longrightarrow> stock_nonneg (fst (persist m ps))"
proof (induction m ps rule: persist.induct)
  case (1 m)
  then show ?case by simp
next
  case (2 m k p ps)
  then show ?case
    by (cases "MemoryStore_Update m p") (auto dest: stock_nonneg_MemoryStore_Update)
qed

lemma stock_nonneg_CreateOrder:
  assumes nn: "stock_nonneg m"
  shows "stock_nonneg (fst (CreateOrder now m customer items))"
proof (cases "customer = [] \<or> items = [] \<or> invalid_items items")
  case True
  with assms show ?thesis
    by (auto simp: CreateOrder_def)
next
  case valid: False
  then have pl: "positive_lines items"
    by (simp add: valid_items_positive)
  show ?thesis
  proof (cases "reserve m items []")
    case (Inl e)
    with valid assms show ?thesis
      by (auto simp: CreateOrder_def)
  next
    case (Inr pc)
    from reserve_nonneg [OF nn pl _ Inr] have "list_all (\<lambda>(k, p). 0 \<le>s Stock p) pc"
      by simp
    with nn have nn1: "stock_nonneg (fst (persist m pc))"
      by (rule stock_nonneg_persist)
    from valid Inr nn1 show ?thesis
      by (auto simp: CreateOrder_def MemoryOrders_Create_def Let_def stock_nonneg_def
            split: sum.splits prod.splits)
  qed
qed

lemma stock_nonneg_CancelOrder:
  assumes nn: "stock_nonneg m" and qp: "quantities_positive m"
    and f: "fits m (OrderCancel now oid)"
  shows "stock_nonneg (fst (CancelOrder now m oid))"
proof (cases "ordersByID m oid")
  case None
  with nn show ?thesis
    by (auto simp: CancelOrder_def MemoryOrders_GetByID_def)
next
  case (Some ord)
  with qp have pl: "positive_lines (Items ord)"
    by (auto simp: quantities_positive_def)
  show ?thesis
  proof (cases "oid \<le>s 0 \<or> Status ord \<noteq> OrderStatusConfirmed")
    case True
    with Some nn show ?thesis
      by (auto simp: CancelOrder_def MemoryOrders_GetByID_def)
  next
    case False
    with Some f have "return_stock_fits m (Items ord)"
      by (simp add: MemoryOrders_GetByID_def)
    with nn pl have nn1: "stock_nonneg (fst (return_stock m (Items ord)))"
      by (intro stock_nonneg_return_stock)
    obtain m1 r where rs: "return_stock m (Items ord) = (m1, r)"
      by (cases "return_stock m (Items ord)")
    with nn1 have m1: "stock_nonneg m1"
      by simp
    show ?thesis
    proof (cases "MemoryOrders_Update now m1 (ord\<lparr>Status := OrderStatusCancelled\<rparr>)")
      case (Inl e)
      with False Some rs m1 show ?thesis
        by (auto simp: CancelOrder_def MemoryOrders_GetByID_def split: sum.splits)
    next
      case (Inr res)
      obtain m2 ord' where res: "res = (m2, ord')"
        by (cases res)
      from MemoryOrders_Update_products [OF Inr [unfolded res]] m1
      have "stock_nonneg m2"
        by (auto simp: stock_nonneg_def)
      with False Some rs Inr res m1 show ?thesis
        by (auto simp: CancelOrder_def MemoryOrders_GetByID_def split: sum.splits)
    qed
  qed
qed

lemma stock_nonneg_PartialReturn:
  assumes nn: "stock_nonneg m" and qp: "quantities_positive m"
    and f: "fits m (OrderPartialReturn now oid returns)"
  shows "stock_nonneg (fst (PartialReturn now m oid returns))"
proof (cases "ordersByID m oid")
  case None
  with nn show ?thesis
    by (auto simp: PartialReturn_def MemoryOrders_GetByID_def)
next
  case (Some ord)
  with qp have pl: "positive_lines (Items ord)"
    by (auto simp: quantities_positive_def)
  show ?thesis
  proof (cases "oid \<le>s 0 \<or> returns = [] \<or> invalid_items returns \<or>
      Status ord \<noteq> OrderStatusConfirmed \<or> exceeds_held (qtyByProduct (Items ord)) returns")
    case True
    with Some nn show ?thesis
      by (auto simp: PartialReturn_def MemoryOrders_GetByID_def)
  next
    case False
    with Some f have "apply_returns_fits m returns (Items ord) (\<lambda>_. 0)"
      by (simp add: MemoryOrders_GetByID_def)
    from stock_nonneg_apply_returns [OF nn pl _ this, of "[]"]
    have nn1: "stock_nonneg (fst (apply_returns m returns (Items ord) (\<lambda>_. 0) []))"
      by simp
    obtain m1 r where ar: "apply_returns m returns (Items ord) (\<lambda>_. 0) [] = (m1, r)"
      by (cases "apply_returns m returns (Items ord) (\<lambda>_. 0) []")
    with nn1 have m1: "stock_nonneg m1"
      by simp
    show ?thesis
    proof (cases r)
      case (Inl e)
      with False Some ar m1 show ?thesis
        by (auto simp: PartialReturn_def MemoryOrders_GetByID_def)
    next
      case (Inr newItems)
      show ?thesis
      proof (cases "MemoryOrders_Update now m1 (ord\<lparr>Items := newItems\<rparr>)")
        case (Inl e)
        with False Some ar Inr m1 show ?thesis
          by (auto simp: PartialReturn_def MemoryOrders_GetByID_def)
      next
        case upd: (Inr res)
        obtain m2 ord' where res: "res = (m2, ord')"
          by (cases res)
        from MemoryOrders_Update_products [OF upd [unfolded res]] m1
        have "stock_nonneg m2"
          by (auto simp: stock_nonneg_def)
        with False Some ar Inr upd res show ?thesis
          by (auto simp: PartialReturn_def MemoryOrders_GetByID_def)
      qed
    qed
  qed
qed

lemma stock_nonneg_perform:
  assumes "stock_nonneg m" and "quantities_positive m" and "fits m op"
  shows "stock_nonneg (perform m op)"
proof (cases op)
  case (ProductCreate p)
  with assms(1) show ?thesis
    by (auto simp: stock_nonneg_def ProductService_Create_def MemoryStore_Create_def Let_def
          word_sle_eq word_sless_alt)
next
  case (ProductUpdate p)
  with assms(1) show ?thesis
    by (auto simp: stock_nonneg_def ProductService_Update_def MemoryStore_Update_def
          word_sle_eq word_sless_alt split: option.splits)
next
  case (ProductDelete pid)
  with assms(1) show ?thesis
    by (auto simp: stock_nonneg_def ProductService_Delete_def MemoryStore_Delete_def
          split: option.splits if_splits)
next
  case (OrderCreate now customer items)
  with assms(1) show ?thesis
    by (simp add: stock_nonneg_CreateOrder)
next
  case (OrderCancel now oid)
  with assms show ?thesis
    by (simp add: stock_nonneg_CancelOrder)
next
  case (OrderPartialReturn now oid returns)
  with assms show ?thesis
    by (simp add: stock_nonneg_PartialReturn)
qed

lemma stock_nonneg_foldl_perform:
  "stock_nonneg m \<Longrightarrow> quantities_positive m \<Longrightarrow> fits_all m ops \<Longrightarrow>
     stock_nonneg (foldl perform m ops)"
  by (induction ops arbitrary: m) (simp_all add: stock_nonneg_perform quantities_positive_perform)

lemma stock_nonneg_NewMemoryStore: "stock_nonneg NewMemoryStore"
  by (simp add: stock_nonneg_def NewMemoryStore_def)

text \<open>
  C8, as the specification states it: no sequence of calls leaves a negative stock. After
  \<open>overflowing_calls\<close> the restoration of \<^verbatim>\<open>CancelOrder\<close> has added 1 to the largest
  64-bit value and wrapped around: the stock on record is the least 64-bit value.
\<close>

theorem stock_negative_after_restoration:
  "map_option sint (stock_of (run overflowing_calls) 1) = Some (- 9223372036854775808) \<and>
   \<not> stock_nonneg (run overflowing_calls) \<and>
   \<not> fits_all NewMemoryStore overflowing_calls"
proof -
  have v: "map_option sint (stock_of (run overflowing_calls) 1) = Some (- 9223372036854775808)"
    by (simp add: model_defs overflowing_calls_def)
  then obtain p where p: "productsByID (run overflowing_calls) 1 = Some p"
    and s: "sint (Stock p) = - 9223372036854775808"
    by (auto simp: stock_of_def)
  have n: "\<not> stock_nonneg (run overflowing_calls)"
  proof
    assume "stock_nonneg (run overflowing_calls)"
    with p have "0 \<le>s Stock p"
      unfolding stock_nonneg_def by blast
    with s show False
      by (simp add: word_sle_eq)
  qed
  have "\<not> fits_all NewMemoryStore overflowing_calls"
    by (simp add: model_defs overflowing_calls_def restore_fits_def)
  with v n show ?thesis
    by simp
qed

text \<open>
  C8, while no restoration wraps around: starting from the empty store, after every
  sequence of product creations, updates and deletions, \<^verbatim>\<open>CreateOrder\<close>,
  \<^verbatim>\<open>CancelOrder\<close> and \<^verbatim>\<open>PartialReturn\<close> calls in which every addition
  \<^verbatim>\<open>p.Stock += n\<close> that a cancellation or a partial return performs stays within 64
  bits, no product has a negative stock.
\<close>

theorem stock_nonneg_while_restorations_fit:
  "fits_all NewMemoryStore ops \<Longrightarrow> stock_nonneg (run ops)"
  unfolding run_def
  using stock_nonneg_NewMemoryStore quantities_positive_NewMemoryStore
  by (rule stock_nonneg_foldl_perform)

text \<open>
  Two sequences that fit. In \<open>returning_calls\<close> the partial return adds 2 and 2 to a
  stock of 7, and the cancellation adds 1 to a stock of 11; the stock ends at 12. In
  \<open>filling_calls\<close> the partial return adds one unit to a stock one below the largest
  64-bit value, while the order holds five: the stock ends at that value.
\<close>

theorem stock_nonneg_while_restorations_fit_witness:
  "fits_all NewMemoryStore returning_calls \<and>
   stock_nonneg (run returning_calls) \<and>
   stock_of (run returning_calls) 1 = Some 12 \<and>
   fits_all NewMemoryStore filling_calls \<and>
   stock_nonneg (run filling_calls) \<and>
   stock_of (run filling_calls) 1 = Some 9223372036854775807"
proof -
  have f: "fits_all NewMemoryStore returning_calls"
    by (simp add: model_defs returning_calls_def restore_fits_def)
  have s: "stock_of (run returning_calls) 1 = Some 12"
    by (simp add: model_defs returning_calls_def)
  have f': "fits_all NewMemoryStore filling_calls"
    by (simp add: model_defs filling_calls_def restore_fits_def)
  have s': "stock_of (run filling_calls) 1 = Some 9223372036854775807"
    by (simp add: model_defs filling_calls_def)
  from stock_nonneg_while_restorations_fit [OF f] stock_nonneg_while_restorations_fit [OF f']
    f s f' s'
  show ?thesis
    by simp
qed

section \<open>A failing CreateOrder writes nothing\<close>

lemma reserve_present:
  "keyed m \<Longrightarrow> list_all (\<lambda>(k, p). productsByID m (Product.ID p) \<noteq> None) pc \<Longrightarrow>
     reserve m items pc = Inr pc' \<Longrightarrow>
     list_all (\<lambda>(k, p). productsByID m (Product.ID p) \<noteq> None) pc'"
proof (induction items arbitrary: pc)
  case Nil
  then show ?case by simp
next
  case (Cons it items)
  from Cons.prems(3) obtain p where p: "productsByID m (ProductID it) = Some p"
    and rest: "reserve m items
        (AList.update (Product.ID p) (p\<lparr>Stock := Stock p - Quantity it\<rparr>) pc) = Inr pc'"
    by (auto simp: MemoryStore_GetByID_def split: option.splits if_splits)
  from Cons.prems(1) p have "productsByID m (Product.ID p) \<noteq> None"
    by (auto simp: keyed_def)
  with Cons.prems(2)
  have "list_all (\<lambda>(k, p). productsByID m (Product.ID p) \<noteq> None)
      (AList.update (Product.ID p) (p\<lparr>Stock := Stock p - Quantity it\<rparr>) pc)"
    by (intro list_all_update) simp_all
  from Cons.IH [OF Cons.prems(1) this rest] show ?case .
qed

lemma persist_present:
  "list_all (\<lambda>(k, p). productsByID m (Product.ID p) \<noteq> None) ps \<Longrightarrow>
     snd (persist m ps) = Inr ()"
proof (induction m ps rule: persist.induct)
  case (1 m)
  then show ?case by simp
next
  case (2 m k p ps)
  from "2.prems" obtain q where q: "productsByID m (Product.ID p) = Some q"
    by auto
  then have u: "MemoryStore_Update m p = Inr (m\<lparr>productsByID := (productsByID m)(Product.ID p \<mapsto> p)\<rparr>)"
    by (simp add: MemoryStore_Update_def)
  from "2.prems"
  have "list_all (\<lambda>(k, p'). productsByID (m\<lparr>productsByID := (productsByID m)(Product.ID p \<mapsto> p)\<rparr>)
            (Product.ID p') \<noteq> None) ps"
    by (auto simp: list_all_iff)
  from "2.IH" [OF u this] u show ?case
    by simp
qed

lemma CreateOrder_failure_no_mutation:
  assumes "keyed m" and "snd (CreateOrder now m customer items) = Inl e"
  shows "fst (CreateOrder now m customer items) = m"
proof (cases "customer = [] \<or> items = [] \<or> invalid_items items")
  case True
  then show ?thesis
    by (auto simp: CreateOrder_def)
next
  case valid: False
  show ?thesis
  proof (cases "reserve m items []")
    case (Inl e')
    with valid show ?thesis
      by (auto simp: CreateOrder_def)
  next
    case (Inr pc)
    from reserve_present [OF assms(1) _ Inr] have "snd (persist m pc) = Inr ()"
      by (intro persist_present) simp
    with valid Inr assms(2) show ?thesis
      by (auto simp: CreateOrder_def split: prod.splits sum.splits)
  qed
qed

section \<open>What a successful CreateOrder writes\<close>

text \<open>
  On a store whose records sit under their identifiers, a successful \<^verbatim>\<open>CreateOrder\<close>
  leaves every product named by the items with its stock less the quantity of the
  last line item naming it, and every other product as it was. When no product is
  named twice this is the stock less the quantity ordered, and cancelling the order
  gives every product back what it had.
\<close>

lemma reserve_map_of:
  "keyed m \<Longrightarrow> reserve m items pc = Inr pc' \<Longrightarrow>
     map_of pc' k =
       (case last_quantity items k of
          None \<Rightarrow> map_of pc k
        | Some q \<Rightarrow> map_option (\<lambda>p. p\<lparr>Stock := Stock p - q\<rparr>) (productsByID m k))"
proof (induction items arbitrary: pc)
  case Nil
  then show ?case by simp
next
  case (Cons it items)
  from Cons.prems(2) obtain p where p: "productsByID m (ProductID it) = Some p"
    and rest: "reserve m items
        (AList.update (Product.ID p) (p\<lparr>Stock := Stock p - Quantity it\<rparr>) pc) = Inr pc'"
    by (auto simp: MemoryStore_GetByID_def split: option.splits if_splits)
  from Cons.prems(1) p have id: "Product.ID p = ProductID it"
    by (simp add: keyed_def)
  from Cons.IH [OF Cons.prems(1) rest] p id show ?case
    by (auto simp: update_conv' split: option.splits)
qed

lemma reserve_entries:
  "keyed m \<Longrightarrow> reserve m items pc = Inr pc' \<Longrightarrow> distinct (map fst pc) \<Longrightarrow>
   list_all (\<lambda>(k, p). Product.ID p = k \<and> productsByID m k \<noteq> None) pc \<Longrightarrow>
     distinct (map fst pc') \<and>
     list_all (\<lambda>(k, p). Product.ID p = k \<and> productsByID m k \<noteq> None) pc'"
proof (induction items arbitrary: pc)
  case Nil
  then show ?case by simp
next
  case (Cons it items)
  from Cons.prems(2) obtain p where p: "productsByID m (ProductID it) = Some p"
    and rest: "reserve m items
        (AList.update (Product.ID p) (p\<lparr>Stock := Stock p - Quantity it\<rparr>) pc) = Inr pc'"
    by (auto simp: MemoryStore_GetByID_def split: option.splits if_splits)
  from Cons.prems(1) p have id: "Product.ID p = ProductID it"
    by (simp add: keyed_def)
  have d: "distinct (map fst
      (AList.update (Product.ID p) (p\<lparr>Stock := Stock p - Quantity it\<rparr>) pc))"
    using Cons.prems(3) by (rule distinct_update)
  have l: "list_all (\<lambda>(k, p). Product.ID p = k \<and> productsByID m k \<noteq> None)
      (AList.update (Product.ID p) (p\<lparr>Stock := Stock p - Quantity it\<rparr>) pc)"
    using Cons.prems(4) p id by (intro list_all_update) simp_all
  from Cons.IH [OF Cons.prems(1) rest d l] show ?case .
qed

lemma persist_map_add:
  "distinct (map fst ps) \<Longrightarrow>
   list_all (\<lambda>(k, p). Product.ID p = k \<and> productsByID m k \<noteq> None) ps \<Longrightarrow>
     persist m ps = (m\<lparr>productsByID := productsByID m ++ map_of ps\<rparr>, Inr ())"
proof (induction ps arbitrary: m)
  case Nil
  then show ?case by simp
next
  case (Cons kp ps)
  obtain k p where kp: "kp = (k, p)"
    by (cases kp)
  from Cons.prems(2) kp obtain q where id: "Product.ID p = k" and q: "productsByID m k = Some q"
    by auto
  let ?m1 = "m\<lparr>productsByID := (productsByID m)(k \<mapsto> p)\<rparr>"
  from id q have u: "MemoryStore_Update m p = Inr ?m1"
    by (simp add: MemoryStore_Update_def)
  from Cons.prems(1) kp have d: "distinct (map fst ps)" and nk: "k \<notin> fst ` set ps"
    by simp_all
  from Cons.prems(2) kp
  have l: "list_all (\<lambda>(k', p'). Product.ID p' = k' \<and> productsByID ?m1 k' \<noteq> None) ps"
    by (auto simp: list_all_iff)
  from nk have "map_of ps k = None"
    by (simp add: map_of_eq_None_iff)
  then have "(productsByID m)(k \<mapsto> p) ++ map_of ps = productsByID m ++ (map_of ps)(k \<mapsto> p)"
    by (auto simp: map_add_def fun_eq_iff split: option.splits)
  then have e: "?m1\<lparr>productsByID := productsByID ?m1 ++ map_of ps\<rparr> =
      m\<lparr>productsByID := productsByID m ++ map_of (kp # ps)\<rparr>"
    by (simp add: kp)
  have step: "persist m (kp # ps) = persist ?m1 ps"
    using u kp by simp
  show ?case
    apply (subst step)
    apply (subst Cons.IH [OF d l])
    apply (subst e)
    apply (rule refl)
    done
qed


lemma CreateOrder_success:
  assumes "keyed m" and "CreateOrder now m customer items = (m', Inr created)"
  shows "productsByID m' k =
           (case last_quantity items k of
              None \<Rightarrow> productsByID m k
            | Some q \<Rightarrow> map_option (\<lambda>p. p\<lparr>Stock := Stock p - q\<rparr>) (productsByID m k))"
    and "created = \<lparr>Order.ID = nextOrderID m, CustomerName = customer, Items = items,
           Status = OrderStatusConfirmed, CreatedAt = now, UpdatedAt = now\<rparr>"
    and "ordersByID m' = (ordersByID m)(nextOrderID m \<mapsto> created)"
proof -
  from assms(2) obtain pc where pc: "reserve m items [] = Inr pc"
    by (auto simp: CreateOrder_def split: if_splits sum.splits)
  from reserve_entries [OF assms(1) pc]
  have "persist m pc = (m\<lparr>productsByID := productsByID m ++ map_of pc\<rparr>, Inr ())"
    by (intro persist_map_add) simp_all
  with assms(2) pc
  have m': "m' = fst (MemoryOrders_Create now (m\<lparr>productsByID := productsByID m ++ map_of pc\<rparr>)
        \<lparr>Order.ID = 0, CustomerName = customer, Items = items,
          Status = OrderStatusConfirmed, CreatedAt = 0, UpdatedAt = 0\<rparr>)"
    and c: "created = snd (MemoryOrders_Create now (m\<lparr>productsByID := productsByID m ++ map_of pc\<rparr>)
        \<lparr>Order.ID = 0, CustomerName = customer, Items = items,
          Status = OrderStatusConfirmed, CreatedAt = 0, UpdatedAt = 0\<rparr>)"
    by (auto simp: CreateOrder_def split: if_splits prod.splits)
  from c show "created = \<lparr>Order.ID = nextOrderID m, CustomerName = customer, Items = items,
           Status = OrderStatusConfirmed, CreatedAt = now, UpdatedAt = now\<rparr>"
    by (simp add: MemoryOrders_Create_def Let_def)
  with m' show "ordersByID m' = (ordersByID m)(nextOrderID m \<mapsto> created)"
    by (simp add: MemoryOrders_Create_def Let_def)
  from m' have "productsByID m' k = (productsByID m ++ map_of pc) k"
    by (simp add: MemoryOrders_Create_def Let_def)
  with reserve_map_of [OF assms(1) pc, of k]
  show "productsByID m' k =
           (case last_quantity items k of
              None \<Rightarrow> productsByID m k
            | Some q \<Rightarrow> map_option (\<lambda>p. p\<lparr>Stock := Stock p - q\<rparr>) (productsByID m k))"
    using pc assms(1)
    by (auto simp: map_add_def split: option.splits)
qed


lemma last_quantity_absent: "k \<notin> ProductID ` set items \<Longrightarrow> last_quantity items k = None"
  by (induction items) auto

lemma last_quantity_distinct:
  "distinct (map ProductID items) \<Longrightarrow> it \<in> set items \<Longrightarrow>
     last_quantity items (ProductID it) = Some (Quantity it)"
  by (induction items) (auto simp: last_quantity_absent)

lemma units_held_absent: "k \<notin> ProductID ` set items \<Longrightarrow> units_held items k = 0"
  by (induction items) (auto simp: units_held_def)

lemma units_held_distinct:
  "distinct (map ProductID items) \<Longrightarrow>
     units_held items k = (case last_quantity items k of None \<Rightarrow> 0 | Some q \<Rightarrow> q)"
proof (induction items)
  case Nil
  then show ?case by (simp add: units_held_def)
next
  case (Cons it items)
  show ?case
  proof (cases "ProductID it = k")
    case True
    with Cons.prems have "k \<notin> ProductID ` set items"
      by auto
    with True show ?thesis
      using units_held_absent [of k items] last_quantity_absent [of k items]
      by (simp add: units_held_def)
  next
    case False
    with Cons show ?thesis
      by (simp add: units_held_def split: option.splits)
  qed
qed

lemma CreateOrder_stock_distinct:
  assumes "keyed m" and "CreateOrder now m customer items = (m', Inr created)"
    and "distinct (map ProductID items)" and "it \<in> set items"
  shows "stock_of m' (ProductID it) =
           map_option (\<lambda>s. s - Quantity it) (stock_of m (ProductID it))"
  using CreateOrder_success(1) [OF assms(1,2), of "ProductID it"]
    last_quantity_distinct [OF assms(3,4)]
  by (simp add: stock_of_def option.map_comp comp_def)

lemma return_stock_success:
  "keyed m \<Longrightarrow> return_stock m its = (m', Inr u) \<Longrightarrow>
     productsByID m' k =
       map_option (\<lambda>p. p\<lparr>Stock := Stock p + units_held its k\<rparr>) (productsByID m k)"
proof (induction its arbitrary: m)
  case Nil
  then show ?case
    by (simp add: units_held_def option.map_ident)
next
  case (Cons it its)
  from Cons.prems(2) obtain m1 where r: "restore_stock m (ProductID it) (Quantity it) = Inr m1"
    and rest: "return_stock m1 its = (m', Inr u)"
    by (auto split: sum.splits)
  have k1: "keyed m1"
    using keyed_restore_stock [OF Cons.prems(1) r] .
  from restore_stock_keyed_eq(1) [OF Cons.prems(1) r]
  have p1: "productsByID m1 = stock_added (productsByID m) (ProductID it) (Quantity it)" .
  from Cons.IH [OF k1 rest] p1 show ?case
    by (auto simp: stock_added_def units_held_def option.map_comp comp_def add.assoc
          split: option.splits)
qed

lemma return_stock_present:
  "keyed m \<Longrightarrow> list_all (\<lambda>it. productsByID m (ProductID it) \<noteq> None) its \<Longrightarrow>
     snd (return_stock m its) = Inr ()"
proof (induction its arbitrary: m)
  case Nil
  then show ?case by simp
next
  case (Cons it its)
  from Cons.prems(2) obtain p where p: "productsByID m (ProductID it) = Some p"
    by auto
  with Cons.prems(1) have id: "Product.ID p = ProductID it"
    by (simp add: keyed_def)
  let ?m1 = "m\<lparr>productsByID := (productsByID m)(ProductID it \<mapsto> p\<lparr>Stock := Stock p + Quantity it\<rparr>)\<rparr>"
  from p id have r: "restore_stock m (ProductID it) (Quantity it) = Inr ?m1"
    by (simp add: restore_stock_def MemoryStore_GetByID_def MemoryStore_Update_def)
  have k1: "keyed ?m1"
    using keyed_restore_stock [OF Cons.prems(1) r] .
  from Cons.prems(2)
  have "list_all (\<lambda>it'. productsByID ?m1 (ProductID it') \<noteq> None) its"
    by (auto simp: list_all_iff)
  from Cons.IH [OF k1 this] r show ?case
    by simp
qed


lemma reserve_products_exist:
  "reserve m items pc = Inr pc' \<Longrightarrow>
     list_all (\<lambda>it. productsByID m (ProductID it) \<noteq> None) items"
proof (induction items arbitrary: pc)
  case Nil
  then show ?case by simp
next
  case (Cons it items)
  from Cons.prems obtain p where p: "productsByID m (ProductID it) = Some p"
    and rest: "reserve m items
        (AList.update (Product.ID p) (p\<lparr>Stock := Stock p - Quantity it\<rparr>) pc) = Inr pc'"
    by (auto simp: MemoryStore_GetByID_def split: option.splits if_splits)
  from Cons.IH [OF rest] p show ?case
    by simp
qed

lemma CreateOrder_CancelOrder_distinct:
  assumes k: "keyed m" and pos: "0 <s nextOrderID m"
    and d: "distinct (map ProductID items)"
    and c: "CreateOrder now m customer items = (m1, Inr created)"
  shows "snd (CancelOrder now' m1 (Order.ID created)) =
           Inr (created\<lparr>Status := OrderStatusCancelled, UpdatedAt := now'\<rparr>) \<and>
         productsByID (fst (CancelOrder now' m1 (Order.ID created))) = productsByID m"
proof -
  note cs = CreateOrder_success [OF k c]
  from keyed_CreateOrder [OF k, of now customer items] c have k1: "keyed m1"
    by simp
  from c obtain pc where pc: "reserve m items [] = Inr pc"
    by (auto simp: CreateOrder_def split: if_splits sum.splits)
  have ex1: "list_all (\<lambda>it. productsByID m1 (ProductID it) \<noteq> None) items"
    unfolding list_all_iff
  proof
    fix it
    assume it: "it \<in> set items"
    with reserve_products_exist [OF pc] have "productsByID m (ProductID it) \<noteq> None"
      by (simp add: list_all_iff)
    with cs(1) [of "ProductID it"] show "productsByID m1 (ProductID it) \<noteq> None"
      by (auto split: option.splits)
  qed
  obtain ma u where rs: "return_stock m1 items = (ma, u)"
    by (cases "return_stock m1 items")
  with return_stock_present [OF k1 ex1] have u: "u = Inr ()"
    by simp
  have oa: "ordersByID ma = ordersByID m1"
    using return_stock_orders [of m1 items] rs by simp
  have pa: "productsByID ma = productsByID m"
  proof
    fix j
    from return_stock_success [OF k1 rs [unfolded u], of j]
    have "productsByID ma j =
        map_option (\<lambda>p. p\<lparr>Stock := Stock p + units_held items j\<rparr>) (productsByID m1 j)" .
    with cs(1) [of j] units_held_distinct [OF d, of j] show "productsByID ma j = productsByID m j"
      by (cases "productsByID m j") (auto split: option.splits)
  qed
  from cs(2) have idc: "Order.ID created = nextOrderID m"
    and st: "Status created = OrderStatusConfirmed" and its: "Items created = items"
    by simp_all
  from cs(3) idc have oc: "ordersByID m1 (Order.ID created) = Some created"
    by simp
  with oa have "ordersByID ma (Order.ID created) = Some created"
    by simp
  from MemoryOrders_Update_keyed_eq [OF this, of "created\<lparr>Status := OrderStatusCancelled\<rparr>" now']
  have up: "MemoryOrders_Update now' ma (created\<lparr>Status := OrderStatusCancelled\<rparr>) =
      Inr (ma\<lparr>ordersByID := (ordersByID ma)(Order.ID created \<mapsto>
                created\<lparr>Status := OrderStatusCancelled, UpdatedAt := now'\<rparr>)\<rparr>,
           created\<lparr>Status := OrderStatusCancelled, UpdatedAt := now'\<rparr>)"
    by simp
  from pos idc have "\<not> Order.ID created \<le>s 0"
    by (simp add: word_sle_eq word_sless_alt)
  with oc st its rs u up pa show ?thesis
    by (simp add: CancelOrder_def MemoryOrders_GetByID_def)
qed


section \<open>PartialReturn within the quantities held\<close>

text \<open>
  For a product whose requested total is within what the order holds of it, the walk
  restores exactly that total and the order holds that much less.
\<close>

lemma spec_held_quantities: "spec_held (quantities items) k = held items k"
  by (simp add: spec_held_def quantities_def held_def filter_map comp_def)

lemma spec_held_Cons:
  "spec_held ((pid, q) # items) k = (if pid = k then q else 0) + spec_held items k"
  by (simp add: spec_held_def)

lemma spec_held_nonneg: "list_all (\<lambda>x. 0 < snd x) items \<Longrightarrow> 0 \<le> spec_held items k"
  by (induction items) (auto simp: spec_held_def)

lemma spec_walk_product:
  "list_all (\<lambda>x. 0 < snd x) items \<Longrightarrow> consumed k \<le> requested k \<Longrightarrow>
   requested k \<le> consumed k + spec_held items k \<Longrightarrow>
     snd (spec_walk requested items consumed restored) k =
       restored k + (requested k - consumed k) \<and>
     spec_held (fst (spec_walk requested items consumed restored)) k =
       spec_held items k - (requested k - consumed k)"
proof (induction items arbitrary: consumed restored)
  case Nil
  then show ?case
    by (simp add: spec_held_def)
next
  case (Cons x items)
  obtain pid a where x: "x = (pid, a)"
    by (cases x)
  from Cons.prems(1) x have a0: "0 < a" and rest: "list_all (\<lambda>x. 0 < snd x) items"
    by simp_all
  have h0: "0 \<le> spec_held items k"
    using rest by (rule spec_held_nonneg)
  have ih: "snd (spec_walk requested items c r) k = r k + (requested k - c k) \<and>
      spec_held (fst (spec_walk requested items c r)) k =
        spec_held items k - (requested k - c k)"
    if "c k \<le> requested k" and "requested k \<le> c k + spec_held items k" for c r
    using Cons.IH [where consumed = c and restored = r, OF rest that] .
  show ?case
  proof (cases "pid = k")
    case False
    have other: "snd (spec_walk requested items (consumed(pid := v)) (restored(pid := w))) k =
          restored k + (requested k - consumed k) \<and>
        spec_held (fst (spec_walk requested items (consumed(pid := v)) (restored(pid := w)))) k =
          spec_held items k - (requested k - consumed k)" for v w
      using ih [of "consumed(pid := v)" "restored(pid := w)"] Cons.prems(2,3) False
      by (simp add: x spec_held_Cons)
    from ih [of consumed restored] Cons.prems(2,3) False other show ?thesis
      by (simp add: x spec_held_Cons case_prod_beta)
  next
    case True
    show ?thesis
    proof (cases "requested k \<le> consumed k")
      case keep: True
      with ih [of consumed restored] Cons.prems(2) h0 True show ?thesis
        by (simp add: x spec_held_Cons case_prod_beta)
    next
      case nk: False
      show ?thesis
      proof (cases "requested k - consumed k < a")
        case reduce: True
        with ih [of "consumed(k := consumed k + (requested k - consumed k))"
            "restored(k := restored k + (requested k - consumed k))"] h0 nk True
        show ?thesis
          by (simp add: x spec_held_Cons case_prod_beta)
      next
        case drop: False
        with ih [of "consumed(k := consumed k + a)" "restored(k := restored k + a)"]
          Cons.prems(3) nk True
        show ?thesis
          by (simp add: x spec_held_Cons case_prod_beta)
      qed
    qed
  qed
qed

text \<open>
  So a successful \<^verbatim>\<open>PartialReturn\<close> whose totals are below \<open>2\<^sup>6\<^sup>3\<close> raises the stock
  of a product by the total requested for it, and lowers what the order holds of it by
  as much, whenever that total is within what the order holds.
\<close>

lemma PartialReturn_conservation:
  assumes "keyed m" and "PartialReturn now m oid returns = (m', Inr updated)"
    and "ordersByID m oid = Some ord" and "positive_lines (Items ord)"
    and "\<forall>j. held returns j < 9223372036854775808"
    and "held returns k \<le> held (Items ord) k"
  shows "stock_of m' k = map_option (\<lambda>s. s + totalReturn returns k) (stock_of m k)"
    and "sint (totalReturn returns k) = held returns k"
    and "held (Items updated) k = held (Items ord) k - held returns k"
proof -
  let ?walk = "spec_walk (spec_totalReturn returns) (quantities (Items ord)) (\<lambda>_. 0) (\<lambda>_. 0)"
  from PartialReturn_success [OF assms(1,2)] assms(3) obtain m1 newItems where
    valid: "\<not> invalid_items returns" and
    ar: "apply_returns m returns (Items ord) (\<lambda>_. 0) [] = (m1, Inr newItems)" and
    upd: "updated = ord\<lparr>Items := newItems, UpdatedAt := now\<rparr>" and
    pm: "productsByID m' = productsByID m1"
    by auto
  from valid have pr: "positive_lines returns"
    by (rule valid_items_positive)
  have rq: "\<forall>j. spec_totalReturn returns j = sint (totalReturn returns j)"
    using sint_totalReturn [OF valid] assms(5) by (simp add: spec_totalReturn_held)
  then show t: "sint (totalReturn returns k) = held returns k"
    by (simp add: spec_totalReturn_held)
  from apply_returns_spec_walk [OF assms(1,4) rq _ _ ar, of "\<lambda>_. 0" "\<lambda>_. 0"]
  have items: "quantities newItems = fst ?walk"
    and prods: "productsByID m1 k =
      map_option (\<lambda>p. p\<lparr>Stock := Stock p + word_of_int (snd ?walk k)\<rparr>) (productsByID m k)"
    by (simp_all add: quantities_def)
  have "(\<lambda>_. 0 :: int) k \<le> spec_totalReturn returns k"
    "spec_totalReturn returns k \<le> (\<lambda>_. 0 :: int) k + spec_held (quantities (Items ord)) k"
    using held_nonneg [OF pr, of k] assms(6)
    by (simp_all add: spec_totalReturn_held spec_held_quantities)
  from spec_walk_product [where items = "quantities (Items ord)" and consumed = "\<lambda>_. 0"
      and requested = "spec_totalReturn returns" and k = k and restored = "\<lambda>_. 0",
      OF positive_quantities [OF assms(4)] this]
  have w: "snd ?walk k = held returns k"
    and h: "spec_held (fst ?walk) k = held (Items ord) k - held returns k"
    by (simp_all add: spec_totalReturn_held spec_held_quantities)
  have "word_of_int (held returns k) = totalReturn returns k"
    using t [symmetric] by simp
  with prods w show "stock_of m' k = map_option (\<lambda>s. s + totalReturn returns k) (stock_of m k)"
    by (simp add: stock_of_def pm option.map_comp comp_def)
  from h items upd show "held (Items updated) k = held (Items ord) k - held returns k"
    using spec_held_quantities [of newItems k] by simp
qed

end
